theory Spec2Isabelle
  imports Complex_Main "HOL-Library.AList" "HOL-Library.Char_ord" "HOL-Library.List_Lexorder"
    "HOL-Library.Product_Lexorder"
begin

section \<open>The record table\<close>

text \<open>
  \<^verbatim>\<open>Prepo.py\<close> is a pipeline of pandas calls over one table. A cell of the table is a
  number, a string or a missing value. Numbers are mathematical reals (the rounding of
  float64 and the range of int64 are not modelled); the three values of float64 that are
  not numbers are kept, since the code produces them: \<open>NaN\<close>, which is also pandas'
  marker of a missing value, and the two infinities.
\<close>

datatype cell = Num real | PInf | NInf | NaN | Str string

datatype py_error =
    KeyError
  | TypeError
  | ValueError
  | FileNotFoundError string
  | ExternalError string

type_synonym series = "cell list"

text \<open>
  A DataFrame: the row labels and the columns in their order, each a name with its
  values.
\<close>

record dataframe =
  index :: "nat list"
  columns :: "(string \<times> series) list"

text \<open>
  The data model's invariant: a row maps each column name to one value, so names are
  not repeated and every column has one value per row.
\<close>

definition wf_frame :: "dataframe \<Rightarrow> bool" where
  "wf_frame df =
     (distinct (map fst (columns df)) \<and>
      list_all (\<lambda>c. length (snd c) = length (index df)) (columns df))"

text \<open>The rows of a frame, each a map from column name to the value of that row.\<close>

definition row_at :: "dataframe \<Rightarrow> nat \<Rightarrow> string \<rightharpoonup> cell" where
  "row_at df i = (\<lambda>c. map_option (\<lambda>s. s ! i) (map_of (columns df) c))"

definition rows :: "dataframe \<Rightarrow> (string \<rightharpoonup> cell) list" where
  "rows df = map (row_at df) [0..<length (index df)]"

section \<open>Exceptions as values\<close>

definition rbind :: "py_error + 'a \<Rightarrow> ('a \<Rightarrow> py_error + 'b) \<Rightarrow> py_error + 'b" where
  "rbind m f = (case m of Inl e \<Rightarrow> Inl e | Inr x \<Rightarrow> f x)"

text \<open>An elementwise operation raises as soon as one element raises.\<close>

fun traverse :: "('a \<Rightarrow> py_error + 'b) \<Rightarrow> 'a list \<Rightarrow> py_error + 'b list" where
  "traverse f [] = Inr []"
| "traverse f (x # xs) =
     (case f x of
        Inl e \<Rightarrow> Inl e
      | Inr y \<Rightarrow> (case traverse f xs of Inl e \<Rightarrow> Inl e | Inr ys \<Rightarrow> Inr (y # ys)))"

section \<open>pandas and numpy operations used by the pipeline\<close>

text \<open>\<^verbatim>\<open>df[c]\<close>: the column, or KeyError.\<close>

definition getitem :: "dataframe \<Rightarrow> string \<Rightarrow> py_error + series" where
  "getitem df c = (case map_of (columns df) c of None \<Rightarrow> Inl KeyError | Some s \<Rightarrow> Inr s)"

text \<open>\<^verbatim>\<open>df[c] = s\<close>: replaces the column where it stands, or appends it.\<close>

definition setitem :: "dataframe \<Rightarrow> string \<Rightarrow> series \<Rightarrow> dataframe" where
  "setitem df c s = df\<lparr>columns := AList.update c s (columns df)\<rparr>"

text \<open>
  \<^verbatim>\<open>current_year - x\<close> on one element; a string operand is a TypeError. The difference
  is the exact one. numpy takes it in the dtype of the column, and on an int64 column a
  difference outside \<open>[-2^63, 2^63)\<close> wraps around: the model and the code agree on the
  years whose difference stays in that range, and what is proved of the value of
  \<open>age\<close> is proved for those years only.
\<close>

fun rsub_cell :: "int \<Rightarrow> cell \<Rightarrow> py_error + cell" where
  "rsub_cell c (Num y) = Inr (Num (of_int c - y))"
| "rsub_cell c PInf = Inr NInf"
| "rsub_cell c NInf = Inr PInf"
| "rsub_cell c NaN = Inr NaN"
| "rsub_cell c (Str s) = Inl TypeError"

text \<open>\<^verbatim>\<open>x < v\<close> and \<^verbatim>\<open>x > v\<close> against a number: false on NaN.\<close>

fun lt_cell :: "real \<Rightarrow> cell \<Rightarrow> py_error + bool" where
  "lt_cell v (Num x) = Inr (x < v)"
| "lt_cell v PInf = Inr False"
| "lt_cell v NInf = Inr True"
| "lt_cell v NaN = Inr False"
| "lt_cell v (Str s) = Inl TypeError"

fun gt_cell :: "real \<Rightarrow> cell \<Rightarrow> py_error + bool" where
  "gt_cell v (Num x) = Inr (v < x)"
| "gt_cell v PInf = Inr True"
| "gt_cell v NInf = Inr False"
| "gt_cell v NaN = Inr False"
| "gt_cell v (Str s) = Inl TypeError"

text \<open>\<^verbatim>\<open>x + v\<close> with a number.\<close>

fun add_cell :: "real \<Rightarrow> cell \<Rightarrow> py_error + cell" where
  "add_cell v (Num x) = Inr (Num (x + v))"
| "add_cell v PInf = Inr PInf"
| "add_cell v NInf = Inr NInf"
| "add_cell v NaN = Inr NaN"
| "add_cell v (Str s) = Inl TypeError"

text \<open>
  \<^verbatim>\<open>x / y\<close>, the true division of pandas: a zero divisor gives an infinity or NaN, never
  an exception.
\<close>

fun div_cell :: "cell \<Rightarrow> cell \<Rightarrow> py_error + cell" where
  "div_cell (Str s) y = Inl TypeError"
| "div_cell x (Str s) = Inl TypeError"
| "div_cell NaN y = Inr NaN"
| "div_cell x NaN = Inr NaN"
| "div_cell (Num a) (Num b) =
     Inr (if b \<noteq> 0 then Num (a / b) else if 0 < a then PInf else if a < 0 then NInf else NaN)"
| "div_cell (Num a) PInf = Inr (Num 0)"
| "div_cell (Num a) NInf = Inr (Num 0)"
| "div_cell PInf (Num b) = Inr (if b < 0 then NInf else PInf)"
| "div_cell NInf (Num b) = Inr (if b < 0 then PInf else NInf)"
| "div_cell PInf PInf = Inr NaN"
| "div_cell PInf NInf = Inr NaN"
| "div_cell NInf PInf = Inr NaN"
| "div_cell NInf NInf = Inr NaN"

text \<open>
  \<^verbatim>\<open>np.log1p\<close> on one element. Outside its domain numpy does not raise: it signals
  the error and returns \<open>-inf\<close> at \<open>-1\<close> and \<open>nan\<close> below.
\<close>

fun log1p_cell :: "cell \<Rightarrow> py_error + cell" where
  "log1p_cell (Num x) =
     Inr (if - 1 < x then Num (ln (1 + x)) else if x = - 1 then NInf else NaN)"
| "log1p_cell PInf = Inr PInf"
| "log1p_cell NInf = Inr NaN"
| "log1p_cell NaN = Inr NaN"
| "log1p_cell (Str s) = Inl TypeError"

text \<open>\<^verbatim>\<open>df.loc[mask, c] = v\<close>; a column that does not exist yet starts as NaN.\<close>

definition loc_setitem :: "dataframe \<Rightarrow> bool list \<Rightarrow> string \<Rightarrow> cell \<Rightarrow> dataframe" where
  "loc_setitem df msk c v =
     setitem df c
       (map2 (\<lambda>b x. if b then v else x) msk
          (case map_of (columns df) c of
             None \<Rightarrow> replicate (length (index df)) NaN
           | Some s \<Rightarrow> s))"

text \<open>\<^verbatim>\<open>s.fillna(v)\<close> and \<^verbatim>\<open>s.astype(str)\<close>. Python's text of a number is the parameter \<open>fmt\<close>.\<close>

definition fillna :: "cell \<Rightarrow> series \<Rightarrow> series" where
  "fillna v s = map (\<lambda>x. if x = NaN then v else x) s"

fun py_str :: "(real \<Rightarrow> string) \<Rightarrow> cell \<Rightarrow> string" where
  "py_str fmt (Num x) = fmt x"
| "py_str fmt PInf = ''inf''"
| "py_str fmt NInf = ''-inf''"
| "py_str fmt NaN = ''nan''"
| "py_str fmt (Str s) = s"

definition astype_str :: "(real \<Rightarrow> string) \<Rightarrow> series \<Rightarrow> series" where
  "astype_str fmt s = map (\<lambda>x. Str (py_str fmt x)) s"

text \<open>\<^verbatim>\<open>df[mask]\<close> with a boolean mask: the rows where the mask holds, labels kept.\<close>

definition select :: "bool list \<Rightarrow> 'a list \<Rightarrow> 'a list" where
  "select msk xs = map fst (filter snd (zip xs msk))"

definition getitem_mask :: "dataframe \<Rightarrow> bool list \<Rightarrow> dataframe" where
  "getitem_mask df msk =
     \<lparr>index = select msk (index df),
      columns = map (\<lambda>(n, s). (n, select msk s)) (columns df)\<rparr>"

section \<open>Feature engineering\<close>

text \<open>
  \<^verbatim>\<open>feature_engineering\<close>, block by block. \<open>current_year\<close> is
  \<^verbatim>\<open>datetime.now().year\<close>, read once at the start of the call.
\<close>

definition fe_age :: "int \<Rightarrow> dataframe \<Rightarrow> py_error + dataframe" where
  "fe_age current_year df =
     rbind (getitem df ''year'') (\<lambda>year.
     rbind (traverse (rsub_cell current_year) year) (\<lambda>age.
     let df1 = setitem df ''age'' age in
     rbind (getitem df1 ''age'') (\<lambda>a.
     rbind (traverse (lt_cell 0) a) (\<lambda>msk.
     Inr (loc_setitem df1 msk ''age'' (Num 0))))))"

definition fe_km_per_year :: "dataframe \<Rightarrow> py_error + dataframe" where
  "fe_km_per_year df =
     rbind (getitem df ''odometer_km'') (\<lambda>odo.
     rbind (getitem df ''age'') (\<lambda>age.
     rbind (traverse (add_cell 1) age) (\<lambda>age1.
     rbind (traverse (\<lambda>(x, y). div_cell x y) (zip odo age1)) (\<lambda>km.
     Inr (setitem df ''km_per_year'' km)))))"

definition fe_price_log :: "dataframe \<Rightarrow> py_error + dataframe" where
  "fe_price_log df =
     rbind (getitem df ''price'') (\<lambda>price.
     rbind (traverse log1p_cell price) (\<lambda>pl.
     Inr (setitem df ''price_log'' pl)))"

definition fill_cat :: "(real \<Rightarrow> string) \<Rightarrow> string \<Rightarrow> dataframe \<Rightarrow> dataframe" where
  "fill_cat fmt cat_col df =
     (case map_of (columns df) cat_col of
        None \<Rightarrow> setitem df cat_col (replicate (length (index df)) (Str ''Unknown''))
      | Some s \<Rightarrow> setitem df cat_col (astype_str fmt (fillna (Str ''Unknown'') s)))"

definition fe_fill_categorical :: "(real \<Rightarrow> string) \<Rightarrow> dataframe \<Rightarrow> dataframe" where
  "fe_fill_categorical fmt df =
     fold (fill_cat fmt) [''fuel'', ''transmission'', ''brand'', ''model'', ''city''] df"

definition fe_price_filter :: "dataframe \<Rightarrow> py_error + dataframe" where
  "fe_price_filter df =
     rbind (getitem df ''price'') (\<lambda>price.
     rbind (traverse (gt_cell 0) price) (\<lambda>msk.
     Inr (getitem_mask df msk)))"

definition fe_odometer_filter :: "dataframe \<Rightarrow> py_error + dataframe" where
  "fe_odometer_filter df =
     rbind (getitem df ''odometer_km'') (\<lambda>odo.
     rbind (traverse (lt_cell 1000000) odo) (\<lambda>msk.
     Inr (getitem_mask df msk)))"

definition fe_drop_outliers :: "dataframe \<Rightarrow> py_error + dataframe" where
  "fe_drop_outliers df = rbind (fe_price_filter df) fe_odometer_filter"

text \<open>The derivation steps (lines 43 to 57), then the two filters (lines 60 and 61).\<close>

definition fe_derive :: "(real \<Rightarrow> string) \<Rightarrow> int \<Rightarrow> dataframe \<Rightarrow> py_error + dataframe" where
  "fe_derive fmt current_year df =
     rbind (fe_age current_year df) (\<lambda>df1.
     rbind (fe_km_per_year df1) (\<lambda>df2.
     rbind (fe_price_log df2) (\<lambda>df3.
     Inr (fe_fill_categorical fmt df3))))"

definition feature_engineering ::
  "(real \<Rightarrow> string) \<Rightarrow> int \<Rightarrow> dataframe \<Rightarrow> py_error + dataframe" where
  "feature_engineering fmt current_year df =
     rbind (fe_derive fmt current_year df) fe_drop_outliers"

text \<open>
  The condition of the two filters on one row: \<^verbatim>\<open>price > 0\<close> (line 60) and
  \<^verbatim>\<open>odometer_km < 1_000_000\<close> (line 61).
\<close>

definition within_bounds :: "(string \<rightharpoonup> cell) \<Rightarrow> bool" where
  "within_bounds r =
     ((case r ''price'' of None \<Rightarrow> False | Some p \<Rightarrow> gt_cell 0 p = Inr True) \<and>
      (case r ''odometer_km'' of None \<Rightarrow> False | Some x \<Rightarrow> lt_cell 1000000 x = Inr True))"

section \<open>One-hot encoding\<close>

text \<open>
  \<^verbatim>\<open>OneHotEncoder(handle_unknown="ignore", sparse=False)\<close> of scikit-learn, as
  \<^verbatim>\<open>fit_transform\<close> uses it on a DataFrame, in the releases that have both the
  \<^verbatim>\<open>sparse\<close> argument and \<^verbatim>\<open>get_feature_names_out\<close> (1.0 to 1.3). Every column is
  validated first: a column needs one sample at least, and a numeric column may hold NaN
  but no infinity.
\<close>

fun is_str :: "cell \<Rightarrow> bool" where
  "is_str (Str s) = True"
| "is_str x = False"

fun is_number :: "cell \<Rightarrow> bool" where
  "is_number (Num x) = True"
| "is_number PInf = True"
| "is_number NInf = True"
| "is_number x = False"

definition check_column :: "series \<Rightarrow> py_error + series" where
  "check_column s =
     (if s = [] then Inl ValueError
      else if \<not> list_ex is_str s \<and> (PInf \<in> set s \<or> NInf \<in> set s) then Inl ValueError
      else Inr s)"

text \<open>
  The categories of a column are its distinct values in sorted order, NaN last: numbers by
  value, strings by code point. A column with strings and numbers cannot be sorted, which
  is a TypeError.
\<close>

fun cell_key :: "cell \<Rightarrow> nat \<times> real \<times> string" where
  "cell_key NInf = (0, 0, [])"
| "cell_key (Num x) = (1, x, [])"
| "cell_key PInf = (2, 0, [])"
| "cell_key (Str s) = (3, 0, s)"
| "cell_key NaN = (4, 0, [])"

definition unique_sorted :: "series \<Rightarrow> py_error + cell list" where
  "unique_sorted s =
     (if list_ex is_str s \<and> list_ex is_number s then Inl TypeError
      else Inr (sort_key cell_key (remdups s)))"

text \<open>
  \<^verbatim>\<open>fit\<close> gives the categories of every column. \<^verbatim>\<open>transform\<close> gives one indicator per
  category, here column by column (the matrix of scikit-learn, transposed).
  \<^verbatim>\<open>get_feature_names_out\<close> names an indicator by its column and category.
\<close>

definition fit :: "series list \<Rightarrow> py_error + cell list list" where
  "fit X = rbind (traverse check_column X) (traverse unique_sorted)"

definition transform :: "cell list list \<Rightarrow> series list \<Rightarrow> series list" where
  "transform categories X =
     concat (map2 (\<lambda>cats s. map (\<lambda>k. map (\<lambda>x. if x = k then Num 1 else Num 0) s) cats)
       categories X)"

definition get_feature_names_out ::
  "(real \<Rightarrow> string) \<Rightarrow> cell list list \<Rightarrow> string list \<Rightarrow> string list" where
  "get_feature_names_out fmt categories input_features =
     concat (map2 (\<lambda>cats c. map (\<lambda>k. c @ ''_'' @ py_str fmt k) cats)
       categories input_features)"

text \<open>\<^verbatim>\<open>df.drop(columns=cs)\<close> and \<^verbatim>\<open>df.reset_index(drop=True)\<close>.\<close>

definition drop_columns :: "dataframe \<Rightarrow> string list \<Rightarrow> dataframe" where
  "drop_columns df cs = df\<lparr>columns := filter (\<lambda>c. fst c \<notin> set cs) (columns df)\<rparr>"

definition reset_index :: "dataframe \<Rightarrow> dataframe" where
  "reset_index df = df\<lparr>index := [0..<length (index df)]\<rparr>"

text \<open>
  \<^verbatim>\<open>pd.concat([a, b], axis=1)\<close> aligns the two frames on their row labels: the result has
  the labels of both, and a frame without a label has NaN there.
\<close>

definition reindex :: "nat list \<Rightarrow> dataframe \<Rightarrow> (string \<times> series) list" where
  "reindex labels df =
     map (\<lambda>(n, s). (n, map (\<lambda>l. case map_of (zip (index df) s) l of None \<Rightarrow> NaN | Some v \<Rightarrow> v) labels))
       (columns df)"

definition concat_axis1 :: "dataframe \<Rightarrow> dataframe \<Rightarrow> dataframe" where
  "concat_axis1 a b =
     (let labels = index a @ filter (\<lambda>l. l \<notin> set (index a)) (index b)
      in \<lparr>index = labels, columns = reindex labels a @ reindex labels b\<rparr>)"

text \<open>
  \<^verbatim>\<open>encode_categorical\<close>. \<^verbatim>\<open>df[cat_cols]\<close> raises KeyError when a column is missing.
  The encoded frame is built from the matrix and has the labels \<open>0, 1, ...\<close>.
\<close>

definition encode_categorical ::
  "(real \<Rightarrow> string) \<Rightarrow> dataframe \<Rightarrow> string list option \<Rightarrow> py_error + dataframe" where
  "encode_categorical fmt df cat_cols_arg =
     (let cat_cols =
        (case cat_cols_arg of None \<Rightarrow> [''fuel'', ''transmission'', ''brand''] | Some cs \<Rightarrow> cs)
      in
      rbind (traverse (getitem df) cat_cols) (\<lambda>X.
      rbind (fit X) (\<lambda>categories.
      let encoded = transform categories X;
          encoded_df =
            \<lparr>index = [0..<length (index df)],
             columns = zip (get_feature_names_out fmt categories cat_cols) encoded\<rparr>;
          df_num = drop_columns df cat_cols;
          df_final = concat_axis1 (reset_index df_num) (reset_index encoded_df)
      in Inr df_final)))"

section \<open>Loading, cleaning, exporting, and the whole run\<close>

text \<open>
  What a run touches outside Python is a parameter: the answer of the MongoDB server at
  an address (the whole collection \<^verbatim>\<open>web_data.cars_raw\<close> as a table, or the error of the
  driver), the file system, the clock, and \<^verbatim>\<open>run_filters\<close> of the module
  \<^verbatim>\<open>filters_car_price\<close>, which returns the cleaned table and a report. A run leaves the
  trace of the calls it made, in their order. The status lines printed on the console
  are left out.
\<close>

datatype event =
    MongoFind string
  | PathExists string
  | ReadCsv string
  | RunFilters dataframe
  | MakeDirs string
  | ToCsv string dataframe

record 'r world =
  mongo_docs :: "string \<Rightarrow> py_error + dataframe"
  path_exists :: "string \<Rightarrow> bool"
  read_csv :: "string \<Rightarrow> py_error + dataframe"
  run_filters :: "dataframe \<Rightarrow> py_error + dataframe \<times> 'r"
  year_now :: int
  makedirs :: "string \<Rightarrow> py_error option"
  to_csv :: "string \<Rightarrow> dataframe \<Rightarrow> py_error option"

type_synonym ('r, 'a) io = "'r world \<Rightarrow> event list \<times> (py_error + 'a)"


definition load_data :: "bool \<Rightarrow> string \<Rightarrow> ('r, dataframe) io" where
  "load_data from_mongo mongo_uri w =
     (if from_mongo then ([MongoFind mongo_uri], mongo_docs w mongo_uri)
      else if \<not> path_exists w ''data/extracted_cars.csv''
      then ([PathExists ''data/extracted_cars.csv''],
            Inl (FileNotFoundError ''data/extracted_cars.csv not found.''))
      else ([PathExists ''data/extracted_cars.csv'', ReadCsv ''data/extracted_cars.csv''],
            read_csv w ''data/extracted_cars.csv''))"




section \<open>Tables as objects\<close>

text \<open>
  A DataFrame is an object, and \<^verbatim>\<open>df[c] = s\<close> and \<^verbatim>\<open>df.loc[mask, c] = v\<close> change the
  object they are applied to. Here the objects live in a heap, a table is passed by its
  address, \<^verbatim>\<open>df.copy()\<close> and every expression that builds a frame make a new object,
  and an assignment into a frame overwrites the object at its address.
\<close>

type_synonym heap = "dataframe list"

type_synonym 'a obj = "heap \<Rightarrow> (py_error + 'a) \<times> heap"

definition obind :: "'a obj \<Rightarrow> ('a \<Rightarrow> 'b obj) \<Rightarrow> 'b obj" where
  "obind m f h = (case m h of (Inl e, h') \<Rightarrow> (Inl e, h') | (Inr x, h') \<Rightarrow> f x h')"

definition copy :: "nat \<Rightarrow> nat obj" where
  "copy a h = (Inr (length h), h @ [h ! a])"

definition in_place :: "nat \<Rightarrow> (dataframe \<Rightarrow> py_error + dataframe) \<Rightarrow> unit obj" where
  "in_place a f h = (case f (h ! a) of Inl e \<Rightarrow> (Inl e, h) | Inr v \<Rightarrow> (Inr (), h[a := v]))"

definition new_frame :: "nat \<Rightarrow> (dataframe \<Rightarrow> py_error + dataframe) \<Rightarrow> nat obj" where
  "new_frame a f h = (case f (h ! a) of Inl e \<Rightarrow> (Inl e, h) | Inr v \<Rightarrow> (Inr (length h), h @ [v]))"

text \<open>
  \<^verbatim>\<open>feature_engineering\<close> on objects: line 39 rebinds \<^verbatim>\<open>df\<close> to a copy, lines 43 to
  57 assign into that object, lines 60 and 61 rebind \<^verbatim>\<open>df\<close> to a new frame each.
\<close>

definition feature_engineering_obj :: "(real \<Rightarrow> string) \<Rightarrow> int \<Rightarrow> nat \<Rightarrow> nat obj" where
  "feature_engineering_obj fmt current_year df =
     obind (copy df) (\<lambda>df.
     obind (in_place df (fe_age current_year)) (\<lambda>_.
     obind (in_place df fe_km_per_year) (\<lambda>_.
     obind (in_place df fe_price_log) (\<lambda>_.
     obind (in_place df (\<lambda>v. Inr (fe_fill_categorical fmt v))) (\<lambda>_.
     obind (new_frame df fe_price_filter) (\<lambda>df.
     new_frame df fe_odometer_filter))))))"

text \<open>
  \<^verbatim>\<open>encode_categorical\<close> on objects: it assigns into no frame; \<^verbatim>\<open>df[cat_cols]\<close>,
  \<^verbatim>\<open>drop\<close>, \<^verbatim>\<open>reset_index\<close> and \<^verbatim>\<open>concat\<close> build frames of their own, of which the
  caller gets the last.
\<close>

definition encode_categorical_obj :: "(real \<Rightarrow> string) \<Rightarrow> nat \<Rightarrow> string list option \<Rightarrow> nat obj" where
  "encode_categorical_obj fmt df cat_cols_arg =
     new_frame df (\<lambda>v. encode_categorical fmt v cat_cols_arg)"

section \<open>Example tables\<close>

text \<open>
  Five listings, read with \<open>current_year = 2024\<close>: the second has a negative price, the
  third the price 0, the fourth an odometer of exactly 1,000,000, and the fifth a model
  year in the future. \<open>listings_fe\<close> is what feature engineering returns for them, and
  \<open>listings_final\<close> what the encoder returns for \<open>listings_fe\<close>.
\<close>

definition listings :: dataframe where
  "listings =
     \<lparr>index = [0, 1, 2, 3, 4],
      columns =
        [(''price'', [Num 10000, Num (- 5), Num 0, Num 500, Num 2000]),
         (''year'', [Num 2020, Num 2019, Num 2018, Num 2021, Num 2030]),
         (''odometer_km'', [Num 50000, Num 100, Num 200, Num 1000000, Num 30000]),
         (''fuel'', [Str ''petrol'', NaN, Str ''diesel'', Str ''petrol'', NaN])]\<rparr>"

definition listings_fe :: dataframe where
  "listings_fe =
     \<lparr>index = [0, 4],
      columns =
        [(''price'', [Num 10000, Num 2000]),
         (''year'', [Num 2020, Num 2030]),
         (''odometer_km'', [Num 50000, Num 30000]),
         (''fuel'', [Str ''petrol'', Str ''Unknown'']),
         (''age'', [Num 4, Num 0]),
         (''km_per_year'', [Num 10000, Num 30000]),
         (''price_log'', [Num (ln 10001), Num (ln 2001)]),
         (''transmission'', [Str ''Unknown'', Str ''Unknown'']),
         (''brand'', [Str ''Unknown'', Str ''Unknown'']),
         (''model'', [Str ''Unknown'', Str ''Unknown'']),
         (''city'', [Str ''Unknown'', Str ''Unknown''])]\<rparr>"

definition listings_final :: dataframe where
  "listings_final =
     \<lparr>index = [0, 1],
      columns =
        [(''price'', [Num 10000, Num 2000]),
         (''year'', [Num 2020, Num 2030]),
         (''odometer_km'', [Num 50000, Num 30000]),
         (''age'', [Num 4, Num 0]),
         (''km_per_year'', [Num 10000, Num 30000]),
         (''price_log'', [Num (ln 10001), Num (ln 2001)]),
         (''model'', [Str ''Unknown'', Str ''Unknown'']),
         (''city'', [Str ''Unknown'', Str ''Unknown'']),
         (''fuel_Unknown'', [Num 0, Num 1]),
         (''fuel_petrol'', [Num 1, Num 0]),
         (''transmission_Unknown'', [Num 1, Num 1]),
         (''brand_Unknown'', [Num 1, Num 1])]\<rparr>"

text \<open>
  A world for the examples: the server has the five listings, there is no CSV file, the
  cleaner returns its input, the year is 2024 and the file system accepts the export.
\<close>

definition example_world :: "unit world" where
  "example_world =
     \<lparr>mongo_docs = (\<lambda>uri. Inr listings),
      path_exists = (\<lambda>p. False),
      read_csv = (\<lambda>p. Inl (FileNotFoundError p)),
      run_filters = (\<lambda>df. Inr (df, ())),
      year_now = 2024,
      makedirs = (\<lambda>p. None),
      to_csv = (\<lambda>p df. None)\<rparr>"

section \<open>Lists, masks and frames\<close>

lemma traverse_Cons_Inr: "traverse f (x # xs) = Inr zs \<longleftrightarrow> (\<exists>y ys. zs = y # ys \<and> f x = Inr y \<and> traverse f xs = Inr ys)"
  by (auto split: sum.splits)

lemma traverse_Inr_iff: "traverse f xs = Inr ys \<longleftrightarrow> list_all2 (\<lambda>x y. f x = Inr y) xs ys"
  by (induction xs arbitrary: ys) (auto simp: traverse_Cons_Inr list_all2_Cons1 simp del: traverse.simps(2))

lemma traverse_length: "traverse f xs = Inr ys \<Longrightarrow> length ys = length xs"
  by (simp add: traverse_Inr_iff list_all2_lengthD)

lemma traverse_nth: "traverse f xs = Inr ys \<Longrightarrow> i < length xs \<Longrightarrow> f (xs ! i) = Inr (ys ! i)"
  by (auto simp: traverse_Inr_iff dest: list_all2_nthD)

lemma traverse_bool: "traverse f xs = Inr bs \<Longrightarrow> bs = map (\<lambda>x. f x = Inr True) xs"
  by (induction xs arbitrary: bs) (auto simp: traverse_Cons_Inr simp del: traverse.simps(2))

lemma rbind_Inr_iff: "rbind m f = Inr y \<longleftrightarrow> (\<exists>x. m = Inr x \<and> f x = Inr y)"
  by (cases m) (auto simp: rbind_def)

lemma select_Nil [simp]: "select msk [] = []" "select [] xs = []"
  by (simp_all add: select_def)

lemma select_Cons [simp]: "select (b # bs) (x # xs) = (if b then x # select bs xs else select bs xs)"
  by (simp add: select_def)

lemma select_map: "select msk (map f xs) = map f (select msk xs)"
proof (induction xs arbitrary: msk)
  case Nil
  show ?case by simp
next
  case (Cons x xs)
  show ?case by (cases msk) (simp_all add: Cons.IH)
qed

lemma select_pred: "select (map P xs) xs = filter P xs"
  by (induction xs) simp_all

lemma select_length: "length xs = length msk \<Longrightarrow> length ys = length msk \<Longrightarrow> length (select msk xs) = length (select msk ys)"
proof (induction msk arbitrary: xs ys)
  case Nil
  then show ?case by simp
next
  case (Cons b bs)
  then show ?case by (cases xs; cases ys) auto
qed

lemma select_nth_upt: "select msk s = map (nth s) (select msk [0..<length s])"
proof -
  have "select msk s = select msk (map (nth s) [0..<length s])"
    by (simp add: map_nth)
  then show ?thesis
    by (simp only: select_map)
qed

lemma set_select: "set (select msk xs) \<subseteq> set xs"
  by (auto simp: select_def dest: set_zip_leftD)

lemma index_setitem [simp]: "index (setitem df c s) = index df"
  by (simp add: setitem_def)

lemma map_of_setitem [simp]: "map_of (columns (setitem df c s)) = (map_of (columns df))(c \<mapsto> s)"
  by (simp add: setitem_def update_conv')

lemma set_alist_update: "p \<in> set (AList.update k v al) \<Longrightarrow> p = (k, v) \<or> p \<in> set al"
  by (induction al) (auto split: if_splits)

lemma wf_frame_setitem: "wf_frame df \<Longrightarrow> length s = length (index df) \<Longrightarrow> wf_frame (setitem df c s)"
  by (auto simp: wf_frame_def setitem_def distinct_update list_all_iff dest!: set_alist_update)

lemma wf_frame_lookup: "wf_frame df \<Longrightarrow> map_of (columns df) c = Some s \<Longrightarrow> length s = length (index df)"
  by (auto simp: wf_frame_def list_all_iff dest!: map_of_SomeD)

lemma index_getitem_mask [simp]: "index (getitem_mask df msk) = select msk (index df)"
  by (simp add: getitem_mask_def)

lemma map_of_getitem_mask: "map_of (columns (getitem_mask df msk)) c = map_option (select msk) (map_of (columns df) c)"
  by (simp add: getitem_mask_def map_of_map)

lemma wf_frame_getitem_mask: "wf_frame df \<Longrightarrow> length msk = length (index df) \<Longrightarrow> wf_frame (getitem_mask df msk)"
  by (auto simp: wf_frame_def getitem_mask_def list_all_iff comp_def case_prod_unfold intro!: select_length)

lemma rows_getitem_mask:
  assumes wf: "wf_frame df" and len: "length msk = length (index df)"
  shows "rows (getitem_mask df msk) = select msk (rows df)"
proof -
  let ?n = "length (index df)"
  let ?sel = "select msk [0..<?n]"
  have l: "length (select msk (index df)) = length ?sel"
    by (rule select_length) (simp_all add: len)
  have "row_at (getitem_mask df msk) j = row_at df (?sel ! j)" if "j < length ?sel" for j
  proof
    fix c
    show "row_at (getitem_mask df msk) j c = row_at df (?sel ! j) c"
    proof (cases "map_of (columns df) c")
      case None
      then show ?thesis by (simp add: row_at_def map_of_getitem_mask)
    next
      case (Some s)
      then have "length s = ?n" using wf by (rule wf_frame_lookup [rotated])
      then have "select msk s = map (nth s) ?sel"
        using select_nth_upt [of msk s] by simp
      then show ?thesis using Some that by (simp add: row_at_def map_of_getitem_mask)
    qed
  qed
  then have "map (row_at (getitem_mask df msk)) [0..<length ?sel] = map (row_at df) ?sel"
    by (intro nth_equalityI) simp_all
  then show ?thesis
    by (simp add: rows_def l select_map)
qed

lemma select_select:
  "length xs = length ys \<Longrightarrow>
   select (map Q (filter P ys)) (select (map P ys) xs) = select (map (\<lambda>y. P y \<and> Q y) ys) xs"
  by (induction xs ys rule: list_induct2) simp_all


section \<open>The steps of feature engineering\<close>

lemma getitem_Inr_iff: "getitem df c = Inr s \<longleftrightarrow> map_of (columns df) c = Some s"
  by (simp add: getitem_def split: option.splits)

lemma map2_map_self: "map2 f (map P xs) xs = map (\<lambda>x. f (P x) x) xs"
  by (induction xs) simp_all

lemma loc_setitem_setitem:
  "loc_setitem (setitem df c s) (map P s) c v = setitem df c (map (\<lambda>x. if P x then v else x) s)"
  by (simp add: loc_setitem_def setitem_def update_conv' update_last map2_map_self)

lemma fe_age_Inr:
  assumes "fe_age cy df = Inr df1"
  obtains year age0 where
    "map_of (columns df) ''year'' = Some year"
    "traverse (rsub_cell cy) year = Inr age0"
    "df1 = setitem df ''age'' (map (\<lambda>a. if lt_cell 0 a = Inr True then Num 0 else a) age0)"
proof -
  from assms obtain year age0 msk where
    y: "map_of (columns df) ''year'' = Some year" and
    a: "traverse (rsub_cell cy) year = Inr age0" and
    m: "traverse (lt_cell 0) age0 = Inr msk" and
    d: "df1 = loc_setitem (setitem df ''age'' age0) msk ''age'' (Num 0)"
    by (auto simp: fe_age_def rbind_Inr_iff getitem_Inr_iff Let_def)
  from m have "msk = map (\<lambda>a. lt_cell 0 a = Inr True) age0"
    by (rule traverse_bool)
  with d have "df1 = setitem df ''age'' (map (\<lambda>a. if lt_cell 0 a = Inr True then Num 0 else a) age0)"
    by (simp add: loc_setitem_setitem)
  with y a show thesis by (rule that)
qed

lemma fe_km_per_year_Inr:
  assumes "fe_km_per_year df = Inr df2"
  obtains odo age age1 km where
    "map_of (columns df) ''odometer_km'' = Some odo"
    "map_of (columns df) ''age'' = Some age"
    "traverse (add_cell 1) age = Inr age1"
    "traverse (\<lambda>(x, y). div_cell x y) (zip odo age1) = Inr km"
    "df2 = setitem df ''km_per_year'' km"
  using assms by (auto simp: fe_km_per_year_def rbind_Inr_iff getitem_Inr_iff)

lemma fe_price_log_Inr:
  assumes "fe_price_log df = Inr df3"
  obtains price pl where
    "map_of (columns df) ''price'' = Some price"
    "traverse log1p_cell price = Inr pl"
    "df3 = setitem df ''price_log'' pl"
  using assms by (auto simp: fe_price_log_def rbind_Inr_iff getitem_Inr_iff)

lemma index_fill_cat [simp]: "index (fill_cat fmt c df) = index df"
  by (simp add: fill_cat_def split: option.splits)

lemma map_of_fill_cat:
  "map_of (columns (fill_cat fmt c df)) =
     (map_of (columns df))(c \<mapsto>
        (case map_of (columns df) c of
           None \<Rightarrow> replicate (length (index df)) (Str ''Unknown'')
         | Some s \<Rightarrow> astype_str fmt (fillna (Str ''Unknown'') s)))"
  by (simp add: fill_cat_def split: option.splits)

lemma wf_frame_fill_cat: "wf_frame df \<Longrightarrow> wf_frame (fill_cat fmt c df)"
  by (auto simp: fill_cat_def astype_str_def fillna_def split: option.splits
      intro!: wf_frame_setitem dest: wf_frame_lookup)

lemma index_fold_fill_cat [simp]: "index (fold (fill_cat fmt) cs df) = index df"
  by (induction cs arbitrary: df) simp_all

lemma wf_frame_fold_fill_cat: "wf_frame df \<Longrightarrow> wf_frame (fold (fill_cat fmt) cs df)"
  by (induction cs arbitrary: df) (simp_all add: wf_frame_fill_cat)

lemma map_of_fold_fill_cat:
  "distinct cs \<Longrightarrow>
   map_of (columns (fold (fill_cat fmt) cs df)) c =
     (if c \<in> set cs
      then Some (case map_of (columns df) c of
                   None \<Rightarrow> replicate (length (index df)) (Str ''Unknown'')
                 | Some s \<Rightarrow> astype_str fmt (fillna (Str ''Unknown'') s))
      else map_of (columns df) c)"
proof (induction cs arbitrary: df)
  case Nil
  show ?case by simp
next
  case (Cons x xs)
  then have d: "distinct xs" and x: "x \<notin> set xs" by simp_all
  show ?case
    using x by (simp add: Cons.IH [OF d] map_of_fill_cat cong: option.case_cong)
qed

lemma index_fe_fill_categorical [simp]: "index (fe_fill_categorical fmt df) = index df"
  unfolding fe_fill_categorical_def by (rule index_fold_fill_cat)

lemma wf_frame_fe_fill_categorical: "wf_frame df \<Longrightarrow> wf_frame (fe_fill_categorical fmt df)"
  unfolding fe_fill_categorical_def by (rule wf_frame_fold_fill_cat)

lemma map_of_fe_fill_categorical:
  "map_of (columns (fe_fill_categorical fmt df)) c =
     (if c \<in> set [''fuel'', ''transmission'', ''brand'', ''model'', ''city'']
      then Some (case map_of (columns df) c of
                   None \<Rightarrow> replicate (length (index df)) (Str ''Unknown'')
                 | Some s \<Rightarrow> astype_str fmt (fillna (Str ''Unknown'') s))
      else map_of (columns df) c)"
  unfolding fe_fill_categorical_def by (rule map_of_fold_fill_cat) simp

lemma fe_derive_Inr:
  assumes "fe_derive fmt cy df = Inr mid"
  obtains year age0 odo age1 km price pl where
    "map_of (columns df) ''year'' = Some year"
    "traverse (rsub_cell cy) year = Inr age0"
    "map_of (columns df) ''odometer_km'' = Some odo"
    "traverse (add_cell 1) (map (\<lambda>a. if lt_cell 0 a = Inr True then Num 0 else a) age0) = Inr age1"
    "traverse (\<lambda>(x, y). div_cell x y) (zip odo age1) = Inr km"
    "map_of (columns df) ''price'' = Some price"
    "traverse log1p_cell price = Inr pl"
    "mid = fe_fill_categorical fmt
       (setitem (setitem (setitem df ''age''
          (map (\<lambda>a. if lt_cell 0 a = Inr True then Num 0 else a) age0)) ''km_per_year'' km)
          ''price_log'' pl)"
proof -
  from assms obtain df1 df2 df3 where
    1: "fe_age cy df = Inr df1" and 2: "fe_km_per_year df1 = Inr df2" and
    3: "fe_price_log df2 = Inr df3" and 4: "mid = fe_fill_categorical fmt df3"
    by (auto simp: fe_derive_def rbind_Inr_iff)
  from 1 obtain year age0 where
    y: "map_of (columns df) ''year'' = Some year" and
    a: "traverse (rsub_cell cy) year = Inr age0" and
    d1: "df1 = setitem df ''age'' (map (\<lambda>a. if lt_cell 0 a = Inr True then Num 0 else a) age0)"
    by (rule fe_age_Inr)
  from 2 obtain odo age age1 km where
    o: "map_of (columns df1) ''odometer_km'' = Some odo" and
    ag: "map_of (columns df1) ''age'' = Some age" and
    a1: "traverse (add_cell 1) age = Inr age1" and
    k: "traverse (\<lambda>(x, y). div_cell x y) (zip odo age1) = Inr km" and
    d2: "df2 = setitem df1 ''km_per_year'' km"
    by (rule fe_km_per_year_Inr)
  from 3 obtain price pl where
    p: "map_of (columns df2) ''price'' = Some price" and
    l: "traverse log1p_cell price = Inr pl" and
    d3: "df3 = setitem df2 ''price_log'' pl"
    by (rule fe_price_log_Inr)
  from o d1 have o': "map_of (columns df) ''odometer_km'' = Some odo" by simp
  from ag d1 have ag': "age = map (\<lambda>a. if lt_cell 0 a = Inr True then Num 0 else a) age0" by simp
  from p d2 d1 have p': "map_of (columns df) ''price'' = Some price" by simp
  show thesis
    using y a o' a1 [unfolded ag'] k p' l
  proof (rule that)
    show "mid = fe_fill_categorical fmt
       (setitem (setitem (setitem df ''age''
          (map (\<lambda>a. if lt_cell 0 a = Inr True then Num 0 else a) age0)) ''km_per_year'' km)
          ''price_log'' pl)"
      by (simp only: 4 d3 d2 d1)
  qed
qed

lemma index_fe_derive: "fe_derive fmt cy df = Inr mid \<Longrightarrow> index mid = index df"
  by (erule fe_derive_Inr) simp

lemma wf_frame_fe_derive:
  assumes "wf_frame df" "fe_derive fmt cy df = Inr mid"
  shows "wf_frame mid"
proof -
  from assms(2) obtain year age0 odo age1 km price pl where
    y: "map_of (columns df) ''year'' = Some year" and
    a: "traverse (rsub_cell cy) year = Inr age0" and
    o: "map_of (columns df) ''odometer_km'' = Some odo" and
    a1: "traverse (add_cell 1) (map (\<lambda>a. if lt_cell 0 a = Inr True then Num 0 else a) age0) = Inr age1" and
    k: "traverse (\<lambda>(x, y). div_cell x y) (zip odo age1) = Inr km" and
    p: "map_of (columns df) ''price'' = Some price" and
    l: "traverse log1p_cell price = Inr pl" and
    m: "mid = fe_fill_categorical fmt
       (setitem (setitem (setitem df ''age''
          (map (\<lambda>a. if lt_cell 0 a = Inr True then Num 0 else a) age0)) ''km_per_year'' km)
          ''price_log'' pl)"
    by (rule fe_derive_Inr)
  let ?n = "length (index df)"
  have ly: "length year = ?n" and lo: "length odo = ?n" and lp: "length price = ?n"
    using assms(1) y o p by (auto dest: wf_frame_lookup)
  have la: "length age0 = ?n" using traverse_length [OF a] ly by simp
  have la1: "length age1 = ?n" using traverse_length [OF a1] la by simp
  have lk: "length km = ?n" using traverse_length [OF k] lo la1 by simp
  have ll: "length pl = ?n" using traverse_length [OF l] lp by simp
  show ?thesis
    unfolding m using assms(1) la lk ll
    by (intro wf_frame_fe_fill_categorical wf_frame_setitem) simp_all
qed

lemma fe_derive_row:
  assumes wf: "wf_frame df" and d: "fe_derive fmt cy df = Inr mid" and i: "i < length (index df)"
  obtains y a0 a a1 od k p l where
    "row_at df i ''year'' = Some y" "row_at mid i ''year'' = Some y"
    "rsub_cell cy y = Inr a0" "a = (if lt_cell 0 a0 = Inr True then Num 0 else a0)"
    "row_at mid i ''age'' = Some a"
    "row_at df i ''odometer_km'' = Some od" "row_at mid i ''odometer_km'' = Some od"
    "add_cell 1 a = Inr a1" "div_cell od a1 = Inr k"
    "row_at mid i ''km_per_year'' = Some k"
    "row_at df i ''price'' = Some p" "row_at mid i ''price'' = Some p"
    "log1p_cell p = Inr l" "row_at mid i ''price_log'' = Some l"
proof -
  from d obtain year age0 odo age1 km price pl where
    y: "map_of (columns df) ''year'' = Some year" and
    a: "traverse (rsub_cell cy) year = Inr age0" and
    o: "map_of (columns df) ''odometer_km'' = Some odo" and
    a1: "traverse (add_cell 1) (map (\<lambda>a. if lt_cell 0 a = Inr True then Num 0 else a) age0) = Inr age1" and
    k: "traverse (\<lambda>(x, y). div_cell x y) (zip odo age1) = Inr km" and
    p: "map_of (columns df) ''price'' = Some price" and
    l: "traverse log1p_cell price = Inr pl" and
    m: "mid = fe_fill_categorical fmt
       (setitem (setitem (setitem df ''age''
          (map (\<lambda>a. if lt_cell 0 a = Inr True then Num 0 else a) age0)) ''km_per_year'' km)
          ''price_log'' pl)"
    by (rule fe_derive_Inr)
  let ?n = "length (index df)"
  let ?clamp = "\<lambda>a. if lt_cell 0 a = Inr True then Num 0 else a"
  have ly: "length year = ?n" and lo: "length odo = ?n" and lp: "length price = ?n"
    using wf y o p by (auto dest: wf_frame_lookup)
  have la: "length age0 = ?n" using traverse_length [OF a] ly by simp
  have la1: "length age1 = ?n" using traverse_length [OF a1] la by simp
  have 1: "rsub_cell cy (year ! i) = Inr (age0 ! i)"
    using traverse_nth [OF a] i ly by simp
  have 2: "add_cell 1 (?clamp (age0 ! i)) = Inr (age1 ! i)"
    using traverse_nth [OF a1, of i] i la by simp
  have 3: "div_cell (odo ! i) (age1 ! i) = Inr (km ! i)"
    using traverse_nth [OF k, of i] i lo la1 by simp
  have 4: "log1p_cell (price ! i) = Inr (pl ! i)"
    using traverse_nth [OF l, of i] i lp by simp
  have my: "row_at mid i ''year'' = Some (year ! i)"
    and mo: "row_at mid i ''odometer_km'' = Some (odo ! i)"
    and mp: "row_at mid i ''price'' = Some (price ! i)"
    and ma: "row_at mid i ''age'' = Some (?clamp (age0 ! i))"
    and mk: "row_at mid i ''km_per_year'' = Some (km ! i)"
    and ml: "row_at mid i ''price_log'' = Some (pl ! i)"
    using y o p i la by (simp_all add: row_at_def m map_of_fe_fill_categorical)
  have dy: "row_at df i ''year'' = Some (year ! i)"
    and do: "row_at df i ''odometer_km'' = Some (odo ! i)"
    and dp: "row_at df i ''price'' = Some (price ! i)"
    using y o p by (simp_all add: row_at_def)
  show thesis
    using dy my 1 refl ma do mo 2 3 mk dp mp 4 ml by (rule that)
qed

lemma length_rows [simp]: "length (rows df) = length (index df)"
  by (simp add: rows_def)

lemma nth_rows: "i < length (index df) \<Longrightarrow> rows df ! i = row_at df i"
  by (simp add: rows_def)

lemma rows_column:
  assumes "wf_frame df" "map_of (columns df) c = Some s"
  shows "map (\<lambda>r. r c) (rows df) = map Some s"
proof -
  have "length s = length (index df)" using assms by (rule wf_frame_lookup)
  then show ?thesis
    using assms(2) by (intro nth_equalityI) (simp_all add: rows_def row_at_def)
qed

lemma column_mask_rows:
  assumes "wf_frame df" "map_of (columns df) c = Some s" "traverse g s = Inr m"
  shows "m = map (\<lambda>r. case r c of None \<Rightarrow> False | Some x \<Rightarrow> g x = Inr True) (rows df)"
proof -
  have "m = map (\<lambda>x. g x = Inr True) s" using assms(3) by (rule traverse_bool)
  also have "\<dots> = map (\<lambda>v. case v of None \<Rightarrow> False | Some x \<Rightarrow> g x = Inr True) (map Some s)"
    by (simp add: comp_def)
  also have "map Some s = map (\<lambda>r. r c) (rows df)"
    using assms(1,2) by (rule rows_column [symmetric])
  finally show ?thesis by (simp add: comp_def)
qed

lemma getitem_mask_twice:
  assumes wf: "wf_frame df" and l: "length rs = length (index df)"
  shows "getitem_mask (getitem_mask df (map P rs)) (map Q (filter P rs)) =
         getitem_mask df (map (\<lambda>r. P r \<and> Q r) rs)"
proof -
  have "\<forall>c\<in>set (columns df). length (snd c) = length rs"
    using wf l by (simp add: wf_frame_def list_all_iff)
  then show ?thesis
    using l by (auto simp: getitem_mask_def case_prod_unfold select_select)
qed

lemma fe_drop_outliers_Inr:
  assumes wf: "wf_frame df" and d: "fe_drop_outliers df = Inr out"
  shows "out = getitem_mask df (map within_bounds (rows df))"
proof -
  let ?P = "\<lambda>r. case r ''price'' of None \<Rightarrow> False | Some p \<Rightarrow> gt_cell 0 p = Inr True"
  let ?Q = "\<lambda>r. case r ''odometer_km'' of None \<Rightarrow> False | Some x \<Rightarrow> lt_cell 1000000 x = Inr True"
  from d obtain price m1 odo m2 where
    p: "map_of (columns df) ''price'' = Some price" and
    m1: "traverse (gt_cell 0) price = Inr m1" and
    o: "map_of (columns (getitem_mask df m1)) ''odometer_km'' = Some odo" and
    m2: "traverse (lt_cell 1000000) odo = Inr m2" and
    out: "out = getitem_mask (getitem_mask df m1) m2"
    by (auto simp: fe_drop_outliers_def fe_price_filter_def fe_odometer_filter_def
        rbind_Inr_iff getitem_Inr_iff)
  have e1: "m1 = map ?P (rows df)"
    using wf p m1 by (rule column_mask_rows)
  then have l1: "length m1 = length (index df)" by simp
  have wf1: "wf_frame (getitem_mask df m1)"
    using wf l1 by (rule wf_frame_getitem_mask)
  have r1: "rows (getitem_mask df m1) = filter ?P (rows df)"
    using rows_getitem_mask [OF wf l1] by (simp add: e1 select_pred)
  have e2: "m2 = map ?Q (filter ?P (rows df))"
    using column_mask_rows [OF wf1 o m2] by (simp only: r1)
  have "out = getitem_mask df (map (\<lambda>r. ?P r \<and> ?Q r) (rows df))"
    unfolding out e1 e2 by (rule getitem_mask_twice [OF wf]) simp
  then show ?thesis
    by (simp add: within_bounds_def [abs_def])
qed

lemma fe_derive_bounds_rows:
  assumes wf: "wf_frame df" and d: "fe_derive fmt cy df = Inr mid"
  shows "map within_bounds (rows mid) = map within_bounds (rows df)"
proof (rule nth_equalityI)
  show "length (map within_bounds (rows mid)) = length (map within_bounds (rows df))"
    using index_fe_derive [OF d] by simp
next
  fix i assume "i < length (map within_bounds (rows mid))"
  then have i: "i < length (index df)" using index_fe_derive [OF d] by simp
  then have i': "i < length (index mid)" using index_fe_derive [OF d] by simp
  from wf d i have "within_bounds (row_at mid i) = within_bounds (row_at df i)"
    by (rule fe_derive_row) (simp add: within_bounds_def)
  then show "map within_bounds (rows mid) ! i = map within_bounds (rows df) ! i"
    using i i' by (simp add: nth_rows)
qed

lemma feature_engineering_Inr:
  assumes wf: "wf_frame df" and fe: "feature_engineering fmt cy df = Inr out"
  obtains mid where
    "fe_derive fmt cy df = Inr mid" "wf_frame mid" "index mid = index df"
    "out = getitem_mask mid (map within_bounds (rows df))"
    "rows out = filter within_bounds (rows mid)"
proof -
  from fe obtain mid where d: "fe_derive fmt cy df = Inr mid" and o: "fe_drop_outliers mid = Inr out"
    by (auto simp: feature_engineering_def rbind_Inr_iff)
  have wfm: "wf_frame mid" using wf d by (rule wf_frame_fe_derive)
  have im: "index mid = index df" using d by (rule index_fe_derive)
  have b: "map within_bounds (rows mid) = map within_bounds (rows df)"
    using wf d by (rule fe_derive_bounds_rows)
  have out: "out = getitem_mask mid (map within_bounds (rows mid))"
    using wfm o by (rule fe_drop_outliers_Inr)
  have "rows out = select (map within_bounds (rows mid)) (rows mid)"
    unfolding out by (rule rows_getitem_mask [OF wfm]) simp
  then have r: "rows out = filter within_bounds (rows mid)"
    by (simp only: select_pred)
  show thesis
    using d wfm im out [unfolded b] r by (rule that)
qed

lemma feature_engineering_row:
  assumes wf: "wf_frame df" and fe: "feature_engineering fmt cy df = Inr out"
    and r: "r \<in> set (rows out)"
  obtains mid i where
    "fe_derive fmt cy df = Inr mid" "i < length (index df)" "r = row_at mid i" "within_bounds r"
proof -
  from wf fe obtain mid where
    d: "fe_derive fmt cy df = Inr mid" and im: "index mid = index df" and
    ro: "rows out = filter within_bounds (rows mid)"
    by (rule feature_engineering_Inr)
  from r ro have rm: "r \<in> set (rows mid)" and b: "within_bounds r" by simp_all
  from rm obtain i where "i < length (index mid)" "r = row_at mid i"
    by (auto simp: rows_def)
  with d im b show thesis by (intro that [of mid i]) simp_all
qed

lemma gt_cell_True_iff: "gt_cell v c = Inr True \<longleftrightarrow> c = PInf \<or> (\<exists>x. c = Num x \<and> v < x)"
  by (cases c) auto

lemma lt_cell_True_iff: "lt_cell v c = Inr True \<longleftrightarrow> c = NInf \<or> (\<exists>x. c = Num x \<and> x < v)"
  by (cases c) auto

lemma within_bounds_iff:
  "within_bounds r \<longleftrightarrow>
     (\<exists>p x. r ''price'' = Some p \<and> r ''odometer_km'' = Some x \<and>
        (p = PInf \<or> (\<exists>v. p = Num v \<and> 0 < v)) \<and> (x = NInf \<or> (\<exists>v. x = Num v \<and> v < 1000000)))"
  by (auto simp: within_bounds_def gt_cell_True_iff lt_cell_True_iff split: option.splits)

lemmas fe_defs = feature_engineering_def fe_derive_def fe_age_def fe_km_per_year_def fe_price_log_def
  fe_fill_categorical_def fill_cat_def fe_drop_outliers_def fe_price_filter_def
  fe_odometer_filter_def rbind_def getitem_def setitem_def
  loc_setitem_def getitem_mask_def select_def fillna_def astype_str_def

lemma wf_listings: "wf_frame listings"
  by (simp add: wf_frame_def listings_def)

lemma fe_listings: "feature_engineering (\<lambda>x. []) 2024 listings = Inr listings_fe"
  by (simp add: fe_defs listings_def listings_fe_def)

lemma astype_str_fillna:
  "astype_str fmt (fillna (Str ''Unknown'') s) =
     map (\<lambda>x. if x = NaN then Str ''Unknown'' else Str (py_str fmt x)) s"
  by (simp add: astype_str_def fillna_def)

lemma select_all_same: "\<forall>x\<in>set xs. x = v \<Longrightarrow> select msk xs = replicate (length (select msk xs)) v"
proof -
  assume "\<forall>x\<in>set xs. x = v"
  then have "\<forall>x\<in>set (select msk xs). x = v"
    using set_select [of msk xs] by blast
  then show ?thesis
    by (simp add: replicate_length_same)
qed

section \<open>When feature engineering returns\<close>

text \<open>
  Feature engineering returns a table whenever the input has the columns \<open>year\<close>,
  \<open>odometer_km\<close> and \<open>price\<close> and none of them holds a string.
\<close>

lemma traverse_total:
  "\<forall>x\<in>set xs. \<exists>y. f x = Inr y \<Longrightarrow> \<exists>ys. traverse f xs = Inr ys"
  by (induction xs) auto

lemma traverse_keeps:
  "traverse f xs = Inr ys \<Longrightarrow> \<forall>x y. f x = Inr y \<longrightarrow> P y \<Longrightarrow> \<forall>y\<in>set ys. P y"
  by (induction xs arbitrary: ys) (auto simp: traverse_Cons_Inr simp del: traverse.simps(2))

lemma rsub_cell_total: "\<not> is_str x \<Longrightarrow> \<exists>y. rsub_cell c x = Inr y"
  by (cases x) auto

lemma rsub_cell_no_str: "rsub_cell c x = Inr y \<Longrightarrow> \<not> is_str y"
  by (cases x) auto

lemma lt_cell_total: "\<not> is_str x \<Longrightarrow> \<exists>b. lt_cell v x = Inr b"
  by (cases x) auto

lemma gt_cell_total: "\<not> is_str x \<Longrightarrow> \<exists>b. gt_cell v x = Inr b"
  by (cases x) auto

lemma add_cell_total: "\<not> is_str x \<Longrightarrow> \<exists>y. add_cell v x = Inr y"
  by (cases x) auto

lemma add_cell_no_str: "add_cell v x = Inr y \<Longrightarrow> \<not> is_str y"
  by (cases x) auto

lemma div_cell_total: "\<not> is_str x \<Longrightarrow> \<not> is_str y \<Longrightarrow> \<exists>z. div_cell x y = Inr z"
  by (cases x; cases y) auto

lemma log1p_cell_total: "\<not> is_str x \<Longrightarrow> \<exists>y. log1p_cell x = Inr y"
  by (cases x) auto

lemma fe_age_returns:
  assumes "map_of (columns df) ''year'' = Some year" "\<forall>x\<in>set year. \<not> is_str x"
  shows "\<exists>age0. traverse (rsub_cell cy) year = Inr age0 \<and>
           fe_age cy df = Inr (setitem df ''age'' (map (\<lambda>a. if lt_cell 0 a = Inr True then Num 0 else a) age0))"
proof -
  from assms(2) obtain age0 where a: "traverse (rsub_cell cy) year = Inr age0"
    using traverse_total [of year "rsub_cell cy"] rsub_cell_total by blast
  have "\<forall>y\<in>set age0. \<not> is_str y"
    using a by (rule traverse_keeps) (simp add: rsub_cell_no_str)
  then obtain msk where m: "traverse (lt_cell 0) age0 = Inr msk"
    using traverse_total [of age0 "lt_cell 0"] lt_cell_total by blast
  then have "msk = map (\<lambda>a. lt_cell 0 a = Inr True) age0"
    by (rule traverse_bool)
  with a m assms(1) show ?thesis
    by (simp add: fe_age_def rbind_def getitem_def loc_setitem_setitem)
qed

lemma feature_engineering_returns:
  assumes wf: "wf_frame df"
    and y: "map_of (columns df) ''year'' = Some year" "\<forall>x\<in>set year. \<not> is_str x"
    and o: "map_of (columns df) ''odometer_km'' = Some odo" "\<forall>x\<in>set odo. \<not> is_str x"
    and p: "map_of (columns df) ''price'' = Some price" "\<forall>x\<in>set price. \<not> is_str x"
  shows "\<exists>out. feature_engineering fmt cy df = Inr out"
proof -
  let ?clamp = "\<lambda>a. if lt_cell 0 a = Inr True then Num 0 else a"
  from fe_age_returns [OF y] obtain age0 where
    a0: "traverse (rsub_cell cy) year = Inr age0" and
    1: "fe_age cy df = Inr (setitem df ''age'' (map ?clamp age0))"
    by blast
  let ?df1 = "setitem df ''age'' (map ?clamp age0)"
  have "\<forall>y\<in>set age0. \<not> is_str y"
    using a0 by (rule traverse_keeps) (simp add: rsub_cell_no_str)
  then have c: "\<forall>y\<in>set (map ?clamp age0). \<not> is_str y"
    by auto
  then obtain age1 where a1: "traverse (add_cell 1) (map ?clamp age0) = Inr age1"
    using traverse_total [of "map ?clamp age0" "add_cell 1"] add_cell_total by blast
  have "\<forall>y\<in>set age1. \<not> is_str y"
    using a1 by (rule traverse_keeps) (simp add: add_cell_no_str)
  with o(2) have "\<forall>q\<in>set (zip odo age1). \<exists>z. (case q of (x, y) \<Rightarrow> div_cell x y) = Inr z"
    by (auto dest: set_zip_leftD set_zip_rightD intro: div_cell_total)
  then obtain km where k: "traverse (\<lambda>(x, y). div_cell x y) (zip odo age1) = Inr km"
    using traverse_total by blast
  let ?df2 = "setitem ?df1 ''km_per_year'' km"
  have 2: "fe_km_per_year ?df1 = Inr ?df2"
    using o(1) a1 k by (simp add: fe_km_per_year_def rbind_def getitem_def)
  from p(2) obtain pl where l: "traverse log1p_cell price = Inr pl"
    using traverse_total [of price log1p_cell] log1p_cell_total by blast
  let ?df3 = "setitem ?df2 ''price_log'' pl"
  have 3: "fe_price_log ?df2 = Inr ?df3"
    using p(1) l by (simp add: fe_price_log_def rbind_def getitem_def)
  let ?mid = "fe_fill_categorical fmt ?df3"
  have d: "fe_derive fmt cy df = Inr ?mid"
    using 1 2 3 by (simp add: fe_derive_def rbind_def)
  have wfm: "wf_frame ?mid" using wf d by (rule wf_frame_fe_derive)
  have mp: "map_of (columns ?mid) ''price'' = Some price"
    and mo: "map_of (columns ?mid) ''odometer_km'' = Some odo"
    using p(1) o(1) by (simp_all add: map_of_fe_fill_categorical)
  from p(2) obtain m1 where m1: "traverse (gt_cell 0) price = Inr m1"
    using traverse_total [of price "gt_cell 0"] gt_cell_total by blast
  let ?f1 = "getitem_mask ?mid m1"
  have 4: "fe_price_filter ?mid = Inr ?f1"
    using mp m1 by (simp add: fe_price_filter_def rbind_def getitem_def)
  have "\<forall>x\<in>set (select m1 odo). \<not> is_str x"
    using o(2) set_select [of m1 odo] by blast
  then obtain m2 where m2: "traverse (lt_cell 1000000) (select m1 odo) = Inr m2"
    using traverse_total [of "select m1 odo" "lt_cell 1000000"] lt_cell_total by blast
  have 5: "fe_odometer_filter ?f1 = Inr (getitem_mask ?f1 m2)"
    using mo m2 by (simp add: fe_odometer_filter_def rbind_def getitem_def map_of_getitem_mask)
  show ?thesis
    using d 4 5 by (simp add: feature_engineering_def fe_drop_outliers_def rbind_def)
qed

section \<open>Properties of feature engineering\<close>

text \<open>
  Claim C1. Every row of the table returned by \<^verbatim>\<open>feature_engineering\<close> has
  \<open>price > 0\<close> and \<open>odometer_km < 1,000,000\<close>, both strictly. The rows returned are
  exactly the rows of the input that are within both bounds, in their order and under
  their labels, with their price and odometer unchanged: a row with price 0, a row with
  an odometer of 1,000,000 and every other row outside a bound is removed.
\<close>

theorem feature_engineering_bounds:
  assumes "wf_frame df" and "feature_engineering fmt current_year df = Inr out"
  shows "(\<forall>r \<in> set (rows out). \<exists>p x.
            r ''price'' = Some p \<and> (p = PInf \<or> (\<exists>v. p = Num v \<and> 0 < v)) \<and>
            r ''odometer_km'' = Some x \<and> (x = NInf \<or> (\<exists>v. x = Num v \<and> v < 1000000))) \<and>
         index out = select (map within_bounds (rows df)) (index df) \<and>
         map_of (columns out) ''price'' =
           map_option (select (map within_bounds (rows df))) (map_of (columns df) ''price'') \<and>
         map_of (columns out) ''odometer_km'' =
           map_option (select (map within_bounds (rows df))) (map_of (columns df) ''odometer_km'')"
proof -
  from assms obtain mid where
    d: "fe_derive fmt current_year df = Inr mid" and im: "index mid = index df" and
    out: "out = getitem_mask mid (map within_bounds (rows df))" and
    ro: "rows out = filter within_bounds (rows mid)"
    by (rule feature_engineering_Inr)
  have 1: "\<forall>r \<in> set (rows out). \<exists>p x.
            r ''price'' = Some p \<and> (p = PInf \<or> (\<exists>v. p = Num v \<and> 0 < v)) \<and>
            r ''odometer_km'' = Some x \<and> (x = NInf \<or> (\<exists>v. x = Num v \<and> v < 1000000))"
    unfolding ro by (auto simp: within_bounds_iff)
  have 2: "index out = select (map within_bounds (rows df)) (index df)"
    by (simp add: out im)
  from d obtain km pl age where
    m: "mid = fe_fill_categorical fmt
       (setitem (setitem (setitem df ''age'' age) ''km_per_year'' km) ''price_log'' pl)"
    by (rule fe_derive_Inr)
  have 3: "map_of (columns mid) ''price'' = map_of (columns df) ''price''"
    and 4: "map_of (columns mid) ''odometer_km'' = map_of (columns df) ''odometer_km''"
    by (simp_all add: m map_of_fe_fill_categorical)
  show ?thesis
    using 1 2 by (simp add: out map_of_getitem_mask 3 4)
qed

theorem feature_engineering_bounds_witness:
  "wf_frame listings \<and> feature_engineering (\<lambda>x. []) 2024 listings = Inr listings_fe \<and>
   index listings_fe = select (map within_bounds (rows listings)) (index listings) \<and>
   select (map within_bounds (rows listings)) (index listings) = [0, 4]"
proof -
  have "select (map within_bounds (rows listings)) (index listings) = [0, 4]"
    by (simp add: rows_def row_at_def within_bounds_def listings_def)
  then show ?thesis
    using feature_engineering_bounds [OF wf_listings fe_listings] wf_listings fe_listings
    by simp
qed



text \<open>
  Claim C3, as amended. Let the numbers of the input's \<open>year\<close> column and their
  differences \<open>current_year - year\<close> lie in the int64 range \<open>[-2^63, 2^63)\<close>, as every
  calendar year does, so that the subtraction of line 43 does not wrap around. Then in
  every row of the table returned whose year is a number, the age is
  \<open>current_year - year\<close>, clamped to 0 when negative, hence at least 0 also for a year in
  the future. A row whose year is missing (NaN) has a missing age: the comparison of line
  44 is false on NaN, so nothing is clamped. No age is negative.
\<close>

theorem feature_engineering_age:
  assumes "wf_frame df" and "feature_engineering fmt current_year df = Inr out"
    and "\<forall>s v. map_of (columns df) ''year'' = Some s \<longrightarrow> Num v \<in> set s \<longrightarrow>
           - (2 ^ 63) \<le> v \<and> v < 2 ^ 63 \<and>
           - (2 ^ 63) \<le> of_int current_year - v \<and> of_int current_year - v < 2 ^ 63"
  shows "\<forall>r \<in> set (rows out). \<exists>y a.
           r ''year'' = Some y \<and> r ''age'' = Some a \<and>
           (\<forall>v. y = Num v \<longrightarrow> a = Num (max 0 (of_int current_year - v))) \<and>
           (y = PInf \<longrightarrow> a = Num 0) \<and> (y = NInf \<longrightarrow> a = PInf) \<and> (y = NaN \<longrightarrow> a = NaN) \<and>
           (y \<noteq> NaN \<longrightarrow> a = PInf \<or> (\<exists>v. a = Num v \<and> 0 \<le> v))"
proof
  fix r assume "r \<in> set (rows out)"
  with assms(1,2) obtain mid i where
    d: "fe_derive fmt current_year df = Inr mid" and i: "i < length (index df)" and
    r: "r = row_at mid i"
    by (rule feature_engineering_row)
  from assms(1) d i obtain y a0 a where
    ry: "row_at mid i ''year'' = Some y" and
    a0: "rsub_cell current_year y = Inr a0" and
    a: "a = (if lt_cell 0 a0 = Inr True then Num 0 else a0)" and
    ra: "row_at mid i ''age'' = Some a"
    by (rule fe_derive_row)
  from a0 a have
    "(\<forall>v. y = Num v \<longrightarrow> a = Num (max 0 (of_int current_year - v))) \<and>
     (y = PInf \<longrightarrow> a = Num 0) \<and> (y = NInf \<longrightarrow> a = PInf) \<and> (y = NaN \<longrightarrow> a = NaN) \<and>
     (y \<noteq> NaN \<longrightarrow> a = PInf \<or> (\<exists>v. a = Num v \<and> 0 \<le> v))"
    by (cases y) (auto simp: max_def)
  with r ry ra show "\<exists>y a.
           r ''year'' = Some y \<and> r ''age'' = Some a \<and>
           (\<forall>v. y = Num v \<longrightarrow> a = Num (max 0 (of_int current_year - v))) \<and>
           (y = PInf \<longrightarrow> a = Num 0) \<and> (y = NInf \<longrightarrow> a = PInf) \<and> (y = NaN \<longrightarrow> a = NaN) \<and>
           (y \<noteq> NaN \<longrightarrow> a = PInf \<or> (\<exists>v. a = Num v \<and> 0 \<le> v))"
    by blast
qed

theorem feature_engineering_age_witness:
  "wf_frame listings \<and> feature_engineering (\<lambda>x. []) 2024 listings = Inr listings_fe \<and>
   map_of (columns listings) ''year'' = Some [Num 2020, Num 2019, Num 2018, Num 2021, Num 2030] \<and>
   list_all (\<lambda>v. - (2 ^ 63) \<le> v \<and> v < 2 ^ 63 \<and>
                 - (2 ^ 63) \<le> of_int 2024 - v \<and> of_int 2024 - v < 2 ^ 63)
     [2020, 2019, 2018, 2021, 2030 :: real] \<and>
   row_at listings_fe 0 ''year'' = Some (Num 2020) \<and>
   row_at listings_fe 0 ''age'' = Some (Num (max 0 (of_int 2024 - 2020))) \<and>
   row_at listings_fe 1 ''year'' = Some (Num 2030) \<and>
   row_at listings_fe 1 ''age'' = Some (Num (max 0 (of_int 2024 - 2030)))"
proof -
  have y: "map_of (columns listings) ''year'' =
      Some [Num 2020, Num 2019, Num 2018, Num 2021, Num 2030]"
    by (simp add: listings_def)
  have b: "list_all (\<lambda>v. - (2 ^ 63) \<le> v \<and> v < 2 ^ 63 \<and>
                 - (2 ^ 63) \<le> of_int 2024 - v \<and> of_int 2024 - v < 2 ^ 63)
     [2020, 2019, 2018, 2021, 2030 :: real]"
    by simp
  have h: "\<forall>s v. map_of (columns listings) ''year'' = Some s \<longrightarrow> Num v \<in> set s \<longrightarrow>
           - (2 ^ 63) \<le> v \<and> v < 2 ^ 63 \<and>
           - (2 ^ 63) \<le> of_int 2024 - v \<and> of_int 2024 - v < 2 ^ 63"
    unfolding y by auto
  from feature_engineering_age [OF wf_listings fe_listings h]
  have "row_at listings_fe 0 ''age'' = Some (Num (max 0 (of_int 2024 - 2020)))"
    "row_at listings_fe 1 ''age'' = Some (Num (max 0 (of_int 2024 - 2030)))"
    by (simp_all add: rows_def row_at_def listings_fe_def)
  moreover have "row_at listings_fe 0 ''year'' = Some (Num 2020)"
    "row_at listings_fe 1 ''year'' = Some (Num 2030)"
    by (simp_all add: row_at_def listings_fe_def)
  ultimately show ?thesis
    using wf_listings fe_listings y b by simp
qed

theorem feature_engineering_age_counterexample:
  "feature_engineering (\<lambda>x. []) 2024
     \<lparr>index = [0],
      columns = [(''price'', [Num 100]), (''year'', [NaN]), (''odometer_km'', [Num 5])]\<rparr> =
   Inr \<lparr>index = [0],
        columns =
          [(''price'', [Num 100]), (''year'', [NaN]), (''odometer_km'', [Num 5]),
           (''age'', [NaN]), (''km_per_year'', [NaN]), (''price_log'', [Num (ln 101)]),
           (''fuel'', [Str ''Unknown'']), (''transmission'', [Str ''Unknown'']),
           (''brand'', [Str ''Unknown'']), (''model'', [Str ''Unknown'']),
           (''city'', [Str ''Unknown''])]\<rparr>"
  by (simp add: fe_defs)

text \<open>
  Claim C4. In every row of the table returned, \<open>price_log\<close> is \<open>ln (1 + price)\<close>.
  The logarithm is taken before the filters run: a row whose price is at most \<open>-1\<close> is
  still in the table at the log step, where it gets the value numpy gives outside the
  domain (\<open>-inf\<close> at \<open>-1\<close>, NaN below) and no exception, and only then is it dropped by
  the price filter.
\<close>

theorem feature_engineering_price_log:
  assumes "wf_frame df" and "feature_engineering fmt current_year df = Inr out"
  shows "(\<forall>r \<in> set (rows out). \<exists>p l.
            r ''price'' = Some p \<and> r ''price_log'' = Some l \<and> log1p_cell p = Inr l \<and>
            (\<forall>v. p = Num v \<longrightarrow> l = Num (ln (1 + v)))) \<and>
         (\<exists>mid. fe_derive fmt current_year df = Inr mid \<and> fe_drop_outliers mid = Inr out \<and>
            rows out = filter within_bounds (rows mid) \<and>
            (\<forall>i < length (index df). \<forall>v. row_at df i ''price'' = Some (Num v) \<and> v \<le> - 1 \<longrightarrow>
               row_at mid i ''price'' = Some (Num v) \<and>
               row_at mid i ''price_log'' = Some (if v = - 1 then NInf else NaN) \<and>
               \<not> within_bounds (row_at mid i)))"
proof
  show "\<forall>r \<in> set (rows out). \<exists>p l.
            r ''price'' = Some p \<and> r ''price_log'' = Some l \<and> log1p_cell p = Inr l \<and>
            (\<forall>v. p = Num v \<longrightarrow> l = Num (ln (1 + v)))"
  proof
    fix r assume "r \<in> set (rows out)"
    with assms obtain mid i where
      d: "fe_derive fmt current_year df = Inr mid" and i: "i < length (index df)" and
      r: "r = row_at mid i" and b: "within_bounds r"
      by (rule feature_engineering_row)
    from assms(1) d i obtain p l where
      rp: "row_at mid i ''price'' = Some p" and l: "log1p_cell p = Inr l" and
      rl: "row_at mid i ''price_log'' = Some l"
      by (rule fe_derive_row)
    from b r rp have "p = PInf \<or> (\<exists>v. p = Num v \<and> 0 < v)"
      by (auto simp: within_bounds_iff)
    with l have "\<forall>v. p = Num v \<longrightarrow> l = Num (ln (1 + v))"
      by auto
    with r rp rl l show "\<exists>p l.
            r ''price'' = Some p \<and> r ''price_log'' = Some l \<and> log1p_cell p = Inr l \<and>
            (\<forall>v. p = Num v \<longrightarrow> l = Num (ln (1 + v)))"
      by blast
  qed
next
  from assms(2) obtain mid where
    d: "fe_derive fmt current_year df = Inr mid" and o: "fe_drop_outliers mid = Inr out"
    by (auto simp: feature_engineering_def rbind_Inr_iff)
  from assms obtain mid' where
    "fe_derive fmt current_year df = Inr mid'" "rows out = filter within_bounds (rows mid')"
    by (rule feature_engineering_Inr)
  with d have ro: "rows out = filter within_bounds (rows mid)" by simp
  have "row_at mid i ''price'' = Some (Num v) \<and>
        row_at mid i ''price_log'' = Some (if v = - 1 then NInf else NaN) \<and>
        \<not> within_bounds (row_at mid i)"
    if i: "i < length (index df)" and p: "row_at df i ''price'' = Some (Num v)" and v: "v \<le> - 1"
    for i v
  proof -
    from assms(1) d i obtain p' l where
      dp: "row_at df i ''price'' = Some p'" and
      rp: "row_at mid i ''price'' = Some p'" and l: "log1p_cell p' = Inr l" and
      rl: "row_at mid i ''price_log'' = Some l"
      by (rule fe_derive_row)
    from dp p have p': "p' = Num v" by simp
    from l v have "l = (if v = - 1 then NInf else NaN)"
      by (simp add: p')
    moreover have "\<not> within_bounds (row_at mid i)"
      using rp v by (simp add: within_bounds_def p')
    ultimately show ?thesis using rp rl p' by simp
  qed
  with d o ro show "\<exists>mid. fe_derive fmt current_year df = Inr mid \<and> fe_drop_outliers mid = Inr out \<and>
            rows out = filter within_bounds (rows mid) \<and>
            (\<forall>i < length (index df). \<forall>v. row_at df i ''price'' = Some (Num v) \<and> v \<le> - 1 \<longrightarrow>
               row_at mid i ''price'' = Some (Num v) \<and>
               row_at mid i ''price_log'' = Some (if v = - 1 then NInf else NaN) \<and>
               \<not> within_bounds (row_at mid i))"
    by blast
qed

theorem feature_engineering_price_log_witness:
  "wf_frame listings \<and> feature_engineering (\<lambda>x. []) 2024 listings = Inr listings_fe \<and>
   row_at listings_fe 0 ''price'' = Some (Num 10000) \<and>
   row_at listings_fe 0 ''price_log'' = Some (Num (ln (1 + 10000))) \<and>
   row_at listings 1 ''price'' = Some (Num (- 5)) \<and>
   (\<exists>mid. fe_derive (\<lambda>x. []) 2024 listings = Inr mid \<and>
      row_at mid 1 ''price_log'' = Some NaN \<and> \<not> within_bounds (row_at mid 1))"
proof -
  have p: "row_at listings 1 ''price'' = Some (Num (- 5))"
    by (simp add: row_at_def listings_def)
  have n: "(1::nat) < length (index listings)"
    by (simp add: listings_def)
  from feature_engineering_price_log [OF wf_listings fe_listings] obtain mid where
    d: "fe_derive (\<lambda>x. []) 2024 listings = Inr mid" and
    a: "\<forall>i < length (index listings). \<forall>v. row_at listings i ''price'' = Some (Num v) \<and> v \<le> - 1 \<longrightarrow>
           row_at mid i ''price'' = Some (Num v) \<and>
           row_at mid i ''price_log'' = Some (if v = - 1 then NInf else NaN) \<and>
           \<not> within_bounds (row_at mid i)"
    by blast
  from a n p have "row_at mid 1 ''price_log'' = Some NaN \<and> \<not> within_bounds (row_at mid 1)"
    by fastforce
  with d have "\<exists>mid. fe_derive (\<lambda>x. []) 2024 listings = Inr mid \<and>
      row_at mid 1 ''price_log'' = Some NaN \<and> \<not> within_bounds (row_at mid 1)"
    by blast
  moreover have "row_at listings_fe 0 ''price'' = Some (Num 10000)"
    "row_at listings_fe 0 ''price_log'' = Some (Num (ln (1 + 10000)))"
    by (simp_all add: row_at_def listings_fe_def)
  ultimately show ?thesis
    using wf_listings fe_listings p by blast
qed

text \<open>
  Claim C5. For each of \<open>fuel\<close>, \<open>transmission\<close>, \<open>brand\<close>, \<open>model\<close>, \<open>city\<close>: the
  table returned has the column, every value of it is a string (none is missing), it is
  \<^verbatim>\<open>"Unknown"\<close> in every row when the input had no such column, and otherwise it is the
  input column with NaN replaced by \<^verbatim>\<open>"Unknown"\<close> and every other value turned into its
  text, restricted to the rows that are kept.
\<close>

theorem feature_engineering_categorical:
  assumes "wf_frame df" and "feature_engineering fmt current_year df = Inr out"
    and "c \<in> set [''fuel'', ''transmission'', ''brand'', ''model'', ''city'']"
  shows "\<exists>s. map_of (columns out) c = Some s \<and> length s = length (index out) \<and>
           (\<forall>x \<in> set s. \<exists>t. x = Str t) \<and>
           (\<forall>r \<in> set (rows out). \<exists>t. r c = Some (Str t)) \<and>
           s = select (map within_bounds (rows df))
                 (case map_of (columns df) c of
                    None \<Rightarrow> replicate (length (index df)) (Str ''Unknown'')
                  | Some s0 \<Rightarrow> map (\<lambda>x. if x = NaN then Str ''Unknown'' else Str (py_str fmt x)) s0) \<and>
           (map_of (columns df) c = None \<longrightarrow> s = replicate (length (index out)) (Str ''Unknown''))"
proof -
  let ?keep = "map within_bounds (rows df)"
  let ?filled = "case map_of (columns df) c of
                    None \<Rightarrow> replicate (length (index df)) (Str ''Unknown'')
                  | Some s0 \<Rightarrow> map (\<lambda>x. if x = NaN then Str ''Unknown'' else Str (py_str fmt x)) s0"
  from assms(1,2) obtain mid where
    d: "fe_derive fmt current_year df = Inr mid" and wfm: "wf_frame mid" and
    im: "index mid = index df" and
    out: "out = getitem_mask mid ?keep"
    by (rule feature_engineering_Inr)
  from d obtain km pl age where
    m: "mid = fe_fill_categorical fmt
       (setitem (setitem (setitem df ''age'' age) ''km_per_year'' km) ''price_log'' pl)"
    by (rule fe_derive_Inr)
  have c: "c \<noteq> ''age''" "c \<noteq> ''km_per_year''" "c \<noteq> ''price_log''"
    using assms(3) by auto
  have mc: "map_of (columns mid) c = Some ?filled"
    using assms(3) c unfolding m
    by (simp add: map_of_fe_fill_categorical astype_str_fillna del: set_simps cong: option.case_cong)
  define s where "s = select ?keep ?filled"
  have 1: "map_of (columns out) c = Some s"
    by (simp add: s_def out map_of_getitem_mask mc)
  have wfo: "wf_frame out"
    unfolding out using wfm by (rule wf_frame_getitem_mask) (simp add: im)
  have 2: "length s = length (index out)"
    using wfo 1 by (rule wf_frame_lookup)
  have str: "\<forall>x \<in> set ?filled. \<exists>t. x = Str t"
    by (auto split: option.splits)
  then have 3: "\<forall>x \<in> set s. \<exists>t. x = Str t"
    unfolding s_def using set_select [of ?keep ?filled] by blast
  have eq: "map (\<lambda>r. r c) (rows out) = map Some s"
    using wfo 1 by (rule rows_column)
  have 4: "\<forall>r \<in> set (rows out). \<exists>t. r c = Some (Str t)"
  proof
    fix r assume "r \<in> set (rows out)"
    then have "r c \<in> set (map (\<lambda>r. r c) (rows out))" by simp
    then have "r c \<in> set (map Some s)" by (simp only: eq)
    then obtain x where "x \<in> set s" "r c = Some x" by auto
    with 3 show "\<exists>t. r c = Some (Str t)" by auto
  qed
  have 5: "s = replicate (length (index out)) (Str ''Unknown'')" if "map_of (columns df) c = None"
  proof -
    have "\<forall>x\<in>set ?filled. x = Str ''Unknown''" using that by simp
    then have "select ?keep ?filled = replicate (length (select ?keep ?filled)) (Str ''Unknown'')"
      by (rule select_all_same)
    then show ?thesis using 2 by (simp only: s_def)
  qed
  show ?thesis
  proof (intro exI [of _ s] conjI impI)
    show "map_of (columns out) c = Some s" by (rule 1)
    show "length s = length (index out)" by (rule 2)
    show "\<forall>x \<in> set s. \<exists>t. x = Str t" by (rule 3)
    show "\<forall>r \<in> set (rows out). \<exists>t. r c = Some (Str t)" by (rule 4)
    show "s = select ?keep ?filled" by (rule s_def)
    show "s = replicate (length (index out)) (Str ''Unknown'')" if "map_of (columns df) c = None"
      using that by (rule 5)
  qed
qed

theorem feature_engineering_categorical_witness:
  "wf_frame listings \<and> feature_engineering (\<lambda>x. []) 2024 listings = Inr listings_fe \<and>
   ''fuel'' \<in> set [''fuel'', ''transmission'', ''brand'', ''model'', ''city''] \<and>
   map_of (columns listings) ''fuel'' = Some [Str ''petrol'', NaN, Str ''diesel'', Str ''petrol'', NaN] \<and>
   map_of (columns listings_fe) ''fuel'' = Some [Str ''petrol'', Str ''Unknown''] \<and>
   ''city'' \<in> set [''fuel'', ''transmission'', ''brand'', ''model'', ''city''] \<and>
   map_of (columns listings) ''city'' = None \<and>
   map_of (columns listings_fe) ''city'' = Some (replicate (length (index listings_fe)) (Str ''Unknown''))"
proof -
  have f: "''fuel'' \<in> set [''fuel'', ''transmission'', ''brand'', ''model'', ''city'']"
    and c: "''city'' \<in> set [''fuel'', ''transmission'', ''brand'', ''model'', ''city'']"
    by simp_all
  have k: "map within_bounds (rows listings) = [True, False, False, False, True]"
    by (simp add: rows_def row_at_def within_bounds_def listings_def)
  have lf: "map_of (columns listings) ''fuel'' = Some [Str ''petrol'', NaN, Str ''diesel'', Str ''petrol'', NaN]"
    and lc: "map_of (columns listings) ''city'' = None"
    by (simp_all add: listings_def)
  from feature_engineering_categorical [OF wf_listings fe_listings f]
  have 1: "map_of (columns listings_fe) ''fuel'' = Some [Str ''petrol'', Str ''Unknown'']"
    by (auto simp: k lf)
  from feature_engineering_categorical [OF wf_listings fe_listings c]
  have 2: "map_of (columns listings_fe) ''city'' =
      Some (replicate (length (index listings_fe)) (Str ''Unknown''))"
    by (auto simp: lc)
  show ?thesis
    using wf_listings fe_listings f c lf lc 1 2 by blast
qed

section \<open>The encoder\<close>

lemma map_of_zip_upt:
  assumes "length s = n" "l < n"
  shows "map_of (zip [0..<n] s) l = Some (s ! l)"
  using map_of_zip_nth [of "[0..<n]" s l] assms by simp

lemma reindex_range:
  assumes "index df = [0..<n]" "list_all (\<lambda>c. length (snd c) = n) (columns df)"
  shows "reindex [0..<n] df = columns df"
proof -
  have "map (\<lambda>l. case map_of (zip [0..<n] s) l of None \<Rightarrow> NaN | Some v \<Rightarrow> v) [0..<n] = s"
    if "length s = n" for s :: series
    using that by (intro nth_equalityI) (simp_all add: map_of_zip_upt)
  then have "\<forall>c\<in>set (columns df).
      (case c of (nm, s) \<Rightarrow>
        (nm, map (\<lambda>l. case map_of (zip (index df) s) l of None \<Rightarrow> NaN | Some v \<Rightarrow> v) [0..<n])) = c"
    using assms by (auto simp: list_all_iff)
  then show ?thesis
    unfolding reindex_def by (simp add: map_idI)
qed

lemma concat_axis1_range:
  assumes "index a = [0..<n]" "list_all (\<lambda>c. length (snd c) = n) (columns a)"
    and "index b = [0..<n]" "list_all (\<lambda>c. length (snd c) = n) (columns b)"
  shows "concat_axis1 a b = \<lparr>index = [0..<n], columns = columns a @ columns b\<rparr>"
proof -
  have "index a @ filter (\<lambda>l. l \<notin> set (index a)) (index b) = [0..<n]"
    by (simp add: assms(1,3))
  then show ?thesis
    using reindex_range [OF assms(1,2)] reindex_range [OF assms(3,4)]
    by (simp add: concat_axis1_def)
qed

lemma unique_sorted_Inr:
  assumes "unique_sorted s = Inr k"
  shows "distinct k" "set k = set s" "length k = card (set s)"
proof -
  from assms have k: "k = sort_key cell_key (remdups s)"
    by (simp add: unique_sorted_def split: if_splits)
  show "distinct k" "set k = set s" by (simp_all add: k)
  show "length k = card (set s)" by (simp add: k length_remdups_card_conv)
qed

lemma length_filter_names:
  assumes "distinct (map fst cols)" "set ks \<subseteq> fst ` set cols" "distinct ks"
  shows "length (filter (\<lambda>c. fst c \<notin> set ks) cols) = length cols - length ks"
proof -
  have "length (filter (\<lambda>c. fst c \<in> set ks) cols) = length (filter (\<lambda>n. n \<in> set ks) (map fst cols))"
    by (simp add: filter_map comp_def)
  also have "\<dots> = card (set (filter (\<lambda>n. n \<in> set ks) (map fst cols)))"
    by (rule distinct_card [symmetric]) (rule distinct_filter [OF assms(1)])
  also have "set (filter (\<lambda>n. n \<in> set ks) (map fst cols)) = set ks"
    using assms(2) by auto
  also have "card (set ks) = length ks"
    using assms(3) by (simp add: distinct_card)
  finally have "length (filter (\<lambda>c. fst c \<in> set ks) cols) = length ks" .
  moreover have "length (filter (\<lambda>c. fst c \<in> set ks) cols) + length (filter (\<lambda>c. fst c \<notin> set ks) cols) = length cols"
    by (rule sum_length_filter_compl)
  ultimately show ?thesis by simp
qed

lemma one_hot_exactly_one:
  assumes "distinct k" "set k = set s" "i < length s"
  shows "\<exists>j < length k.
           map (\<lambda>v. map (\<lambda>x. if x = v then Num 1 else Num 0) s) k ! j ! i = Num 1 \<and>
           (\<forall>j' < length k. j' \<noteq> j \<longrightarrow>
              map (\<lambda>v. map (\<lambda>x. if x = v then Num 1 else Num 0) s) k ! j' ! i = Num 0)"
proof -
  from assms(2,3) have "s ! i \<in> set k" by simp
  then obtain j where j: "j < length k" "k ! j = s ! i"
    by (auto simp: in_set_conv_nth)
  have ne: "s ! i \<noteq> k ! j'" if "j' < length k" "j' \<noteq> j" for j'
    using that j nth_eq_iff_index_eq [OF assms(1), of j' j] by auto
  have 1: "map (\<lambda>v. map (\<lambda>x. if x = v then Num 1 else Num 0) s) k ! j ! i = Num 1"
    using j assms(3) by simp
  have 2: "\<forall>j' < length k. j' \<noteq> j \<longrightarrow>
              map (\<lambda>v. map (\<lambda>x. if x = v then Num 1 else Num 0) s) k ! j' ! i = Num 0"
    using ne assms(3) by simp
  from j(1) 1 2 show ?thesis by blast
qed

lemma check_column_Inr: "check_column s = Inr s' \<Longrightarrow> s' = s \<and> s \<noteq> []"
  by (auto simp: check_column_def split: if_splits)

lemma encode_categorical_default_Inr:
  assumes wf: "wf_frame df" and enc: "encode_categorical fmt df None = Inr out"
  obtains f t b cf ct cb where
    "map_of (columns df) ''fuel'' = Some f"
    "map_of (columns df) ''transmission'' = Some t"
    "map_of (columns df) ''brand'' = Some b"
    "unique_sorted f = Inr cf" "unique_sorted t = Inr ct" "unique_sorted b = Inr cb"
    "out = \<lparr>index = [0..<length (index df)],
            columns =
              filter (\<lambda>c. fst c \<notin> set [''fuel'', ''transmission'', ''brand'']) (columns df) @
              map (\<lambda>k. (''fuel'' @ ''_'' @ py_str fmt k, map (\<lambda>x. if x = k then Num 1 else Num 0) f)) cf @
              map (\<lambda>k. (''transmission'' @ ''_'' @ py_str fmt k, map (\<lambda>x. if x = k then Num 1 else Num 0) t)) ct @
              map (\<lambda>k. (''brand'' @ ''_'' @ py_str fmt k, map (\<lambda>x. if x = k then Num 1 else Num 0) b)) cb\<rparr>"
proof -
  let ?n = "length (index df)"
  let ?cs = "[''fuel'', ''transmission'', ''brand'']"
  from enc obtain X categories where
    X: "traverse (getitem df) ?cs = Inr X" and
    fit: "fit X = Inr categories" and
    out: "out = concat_axis1 (reset_index (drop_columns df ?cs))
            (reset_index \<lparr>index = [0..<?n],
               columns = zip (get_feature_names_out fmt categories ?cs) (transform categories X)\<rparr>)"
    by (auto simp: encode_categorical_def rbind_Inr_iff Let_def)
  from X obtain f t b where
    Xe: "X = [f, t, b]" and
    f: "map_of (columns df) ''fuel'' = Some f" and
    t: "map_of (columns df) ''transmission'' = Some t" and
    b: "map_of (columns df) ''brand'' = Some b"
    by (auto simp: traverse_Cons_Inr getitem_Inr_iff simp del: traverse.simps(2))
  from fit obtain cf ct cb where
    ce: "categories = [cf, ct, cb]" and
    cf: "unique_sorted f = Inr cf" and ct: "unique_sorted t = Inr ct" and
    cb: "unique_sorted b = Inr cb"
    unfolding fit_def Xe
    by (auto simp: rbind_Inr_iff traverse_Cons_Inr simp del: traverse.simps(2) dest!: check_column_Inr)
  let ?enc = "map (\<lambda>k. (''fuel'' @ ''_'' @ py_str fmt k, map (\<lambda>x. if x = k then Num 1 else Num 0) f)) cf @
              map (\<lambda>k. (''transmission'' @ ''_'' @ py_str fmt k, map (\<lambda>x. if x = k then Num 1 else Num 0) t)) ct @
              map (\<lambda>k. (''brand'' @ ''_'' @ py_str fmt k, map (\<lambda>x. if x = k then Num 1 else Num 0) b)) cb"
  have z: "zip (get_feature_names_out fmt categories ?cs) (transform categories X) = ?enc"
    by (simp add: get_feature_names_out_def transform_def ce Xe zip_map_map zip_same_conv_map)
  have lf: "length f = ?n" and lt: "length t = ?n" and lb: "length b = ?n"
    using wf f t b by (auto dest: wf_frame_lookup)
  have l1: "list_all (\<lambda>c. length (snd c) = ?n) (columns (reset_index (drop_columns df ?cs)))"
    using wf by (auto simp: wf_frame_def reset_index_def drop_columns_def list_all_iff)
  have l2: "list_all (\<lambda>c. length (snd c) = ?n) ?enc"
    using lf lt lb by (auto simp: list_all_iff)
  have "out = \<lparr>index = [0..<?n],
            columns = filter (\<lambda>c. fst c \<notin> set ?cs) (columns df) @ ?enc\<rparr>"
    unfolding out z
    using concat_axis1_range [of "reset_index (drop_columns df ?cs)" ?n
        "reset_index \<lparr>index = [0..<?n], columns = ?enc\<rparr>"] l1 l2
    by (simp add: reset_index_def drop_columns_def)
  with f t b cf ct cb show thesis by (rule that)
qed

lemmas enc_defs = encode_categorical_def fit_def transform_def get_feature_names_out_def
  check_column_def unique_sorted_def drop_columns_def reset_index_def concat_axis1_def reindex_def
  rbind_def getitem_def

lemma wf_listings_fe: "wf_frame listings_fe"
  by (simp add: wf_frame_def listings_fe_def)

lemma enc_listings: "encode_categorical (\<lambda>x. []) listings_fe None = Inr listings_final"
  by (simp add: enc_defs listings_fe_def listings_final_def)

section \<open>When the encoder returns\<close>

text \<open>
  The encoder returns a table for every table with a row at least whose \<open>fuel\<close>,
  \<open>transmission\<close> and \<open>brand\<close> hold strings only; the tables that feature engineering
  returns are of this kind, unless all rows were dropped.
\<close>

lemma fit_column_strings:
  assumes "s \<noteq> []" "\<forall>x\<in>set s. is_str x"
  shows "check_column s = Inr s" "unique_sorted s = Inr (sort_key cell_key (remdups s))"
proof -
  from assms obtain x where "x \<in> set s" "is_str x"
    by (cases s) auto
  then have e: "list_ex is_str s" by (auto simp: list_ex_iff)
  have n: "\<not> list_ex is_number s"
  proof
    assume "list_ex is_number s"
    then obtain y where "y \<in> set s" "is_number y" by (auto simp: list_ex_iff)
    with assms(2) show False by (cases y) auto
  qed
  show "check_column s = Inr s" using assms(1) e by (simp add: check_column_def)
  show "unique_sorted s = Inr (sort_key cell_key (remdups s))" using n by (simp add: unique_sorted_def)
qed

lemma encode_categorical_returns:
  assumes "index df \<noteq> []" and "wf_frame df"
    and f: "map_of (columns df) ''fuel'' = Some f" "\<forall>x\<in>set f. is_str x"
    and t: "map_of (columns df) ''transmission'' = Some t" "\<forall>x\<in>set t. is_str x"
    and b: "map_of (columns df) ''brand'' = Some b" "\<forall>x\<in>set b. is_str x"
  shows "\<exists>out. encode_categorical fmt df None = Inr out"
proof -
  have "length f = length (index df)" "length t = length (index df)" "length b = length (index df)"
    using assms(2) f(1) t(1) b(1) by (auto dest: wf_frame_lookup)
  with assms(1) have ne: "f \<noteq> []" "t \<noteq> []" "b \<noteq> []" by auto
  have X: "traverse (getitem df) [''fuel'', ''transmission'', ''brand''] = Inr [f, t, b]"
    using f(1) t(1) b(1) by (simp add: getitem_def)
  have F: "fit [f, t, b] = Inr [sort_key cell_key (remdups f), sort_key cell_key (remdups t),
      sort_key cell_key (remdups b)]"
    using fit_column_strings [OF ne(1) f(2)] fit_column_strings [OF ne(2) t(2)]
      fit_column_strings [OF ne(3) b(2)]
    by (simp add: fit_def rbind_def)
  show ?thesis
    using X F by (simp add: encode_categorical_def rbind_def Let_def)
qed

lemma feature_engineering_string_column:
  assumes wf: "wf_frame df" and fe: "feature_engineering fmt cy df = Inr out"
    and c: "c \<in> set [''fuel'', ''transmission'', ''brand'', ''model'', ''city'']"
  shows "\<exists>s. map_of (columns out) c = Some s \<and> (\<forall>x\<in>set s. is_str x)"
proof -
  from wf fe obtain mid where
    d: "fe_derive fmt cy df = Inr mid" and
    out: "out = getitem_mask mid (map within_bounds (rows df))"
    by (rule feature_engineering_Inr)
  from d obtain km pl age where
    m: "mid = fe_fill_categorical fmt
       (setitem (setitem (setitem df ''age'' age) ''km_per_year'' km) ''price_log'' pl)"
    by (rule fe_derive_Inr)
  let ?m = "map_of (columns (setitem (setitem (setitem df ''age'' age) ''km_per_year'' km) ''price_log'' pl)) c"
  define s where "s = (case ?m of
                   None \<Rightarrow> replicate (length (index df)) (Str ''Unknown'')
                 | Some s \<Rightarrow> astype_str fmt (fillna (Str ''Unknown'') s))"
  have mc: "map_of (columns mid) c = Some s"
    unfolding m s_def using c by (simp only: map_of_fe_fill_categorical if_True index_setitem)
  have "\<forall>x\<in>set s. is_str x"
    by (auto simp: s_def astype_str_def split: option.splits)
  then have "\<forall>x\<in>set (select (map within_bounds (rows df)) s). is_str x"
    using set_select [of "map within_bounds (rows df)" s] by blast
  moreover have "map_of (columns out) c = Some (select (map within_bounds (rows df)) s)"
    by (simp add: out map_of_getitem_mask mc)
  ultimately show ?thesis by blast
qed

lemma wf_frame_feature_engineering:
  assumes "wf_frame df" "feature_engineering fmt cy df = Inr out"
  shows "wf_frame out"
proof -
  from assms obtain mid where
    wfm: "wf_frame mid" and im: "index mid = index df" and
    out: "out = getitem_mask mid (map within_bounds (rows df))"
    by (rule feature_engineering_Inr)
  show ?thesis
    unfolding out using wfm by (rule wf_frame_getitem_mask) (simp add: im)
qed

lemma pipeline_encoder_returns:
  assumes wf: "wf_frame df" and fe: "feature_engineering fmt cy df = Inr fe_df"
    and ne: "index fe_df \<noteq> []"
  shows "\<exists>final_df. encode_categorical fmt fe_df None = Inr final_df"
proof -
  have wfo: "wf_frame fe_df" using wf fe by (rule wf_frame_feature_engineering)
  from feature_engineering_string_column [OF wf fe, of "''fuel''"]
  obtain f where f: "map_of (columns fe_df) ''fuel'' = Some f" "\<forall>x\<in>set f. is_str x"
    by auto
  from feature_engineering_string_column [OF wf fe, of "''transmission''"]
  obtain t where t: "map_of (columns fe_df) ''transmission'' = Some t" "\<forall>x\<in>set t. is_str x"
    by auto
  from feature_engineering_string_column [OF wf fe, of "''brand''"]
  obtain b where b: "map_of (columns fe_df) ''brand'' = Some b" "\<forall>x\<in>set b. is_str x"
    by auto
  from ne wfo f t b show ?thesis by (rule encode_categorical_returns)
qed

section \<open>Properties of the encoder\<close>

text \<open>
  Claim C6. With the default column list, the table returned by \<^verbatim>\<open>encode_categorical\<close>
  has the columns of the input without \<open>fuel\<close>, \<open>transmission\<close> and \<open>brand\<close>,
  followed by one indicator column for each distinct value of \<open>fuel\<close>, of
  \<open>transmission\<close> and of \<open>brand\<close>: its column count is the input's minus 3, plus the
  numbers of distinct values of the three columns.
\<close>

theorem encode_categorical_column_count:
  assumes "wf_frame df" and "encode_categorical fmt df None = Inr out"
  shows "\<exists>f t b cf ct cb.
           map_of (columns df) ''fuel'' = Some f \<and>
           map_of (columns df) ''transmission'' = Some t \<and>
           map_of (columns df) ''brand'' = Some b \<and>
           length (columns out) =
             (length (columns df) - 3) + (card (set f) + card (set t) + card (set b)) \<and>
           distinct cf \<and> set cf = set f \<and> distinct ct \<and> set ct = set t \<and>
           distinct cb \<and> set cb = set b \<and>
           map fst (columns out) =
             filter (\<lambda>n. n \<notin> set [''fuel'', ''transmission'', ''brand'']) (map fst (columns df)) @
             map (\<lambda>k. ''fuel_'' @ py_str fmt k) cf @
             map (\<lambda>k. ''transmission_'' @ py_str fmt k) ct @
             map (\<lambda>k. ''brand_'' @ py_str fmt k) cb"
proof -
  let ?cs = "[''fuel'', ''transmission'', ''brand'']"
  from assms obtain f t b cf ct cb where
    f: "map_of (columns df) ''fuel'' = Some f" and
    t: "map_of (columns df) ''transmission'' = Some t" and
    b: "map_of (columns df) ''brand'' = Some b" and
    cf: "unique_sorted f = Inr cf" and ct: "unique_sorted t = Inr ct" and
    cb: "unique_sorted b = Inr cb" and
    out: "out = \<lparr>index = [0..<length (index df)],
            columns =
              filter (\<lambda>c. fst c \<notin> set ?cs) (columns df) @
              map (\<lambda>k. (''fuel'' @ ''_'' @ py_str fmt k, map (\<lambda>x. if x = k then Num 1 else Num 0) f)) cf @
              map (\<lambda>k. (''transmission'' @ ''_'' @ py_str fmt k, map (\<lambda>x. if x = k then Num 1 else Num 0) t)) ct @
              map (\<lambda>k. (''brand'' @ ''_'' @ py_str fmt k, map (\<lambda>x. if x = k then Num 1 else Num 0) b)) cb\<rparr>"
    by (rule encode_categorical_default_Inr)
  have "set ?cs \<subseteq> fst ` set (columns df)"
    using f t b by (auto dest!: map_of_SomeD intro: rev_image_eqI)
  with assms(1) have "length (filter (\<lambda>c. fst c \<notin> set ?cs) (columns df)) = length (columns df) - length ?cs"
    by (intro length_filter_names) (simp_all add: wf_frame_def)
  then have n: "length (filter (\<lambda>c. fst c \<notin> set ?cs) (columns df)) = length (columns df) - 3"
    by simp
  have len: "length (columns out) =
      (length (columns df) - 3) + (card (set f) + card (set t) + card (set b))"
    using n unique_sorted_Inr(3) [OF cf] unique_sorted_Inr(3) [OF ct] unique_sorted_Inr(3) [OF cb]
    by (simp add: out)
  have names: "map fst (columns out) =
             filter (\<lambda>n. n \<notin> set ?cs) (map fst (columns df)) @
             map (\<lambda>k. ''fuel_'' @ py_str fmt k) cf @
             map (\<lambda>k. ''transmission_'' @ py_str fmt k) ct @
             map (\<lambda>k. ''brand_'' @ py_str fmt k) cb"
    by (simp add: out filter_map comp_def)
  show ?thesis
    using f t b len names unique_sorted_Inr(1,2) [OF cf] unique_sorted_Inr(1,2) [OF ct]
      unique_sorted_Inr(1,2) [OF cb]
    by blast
qed

theorem encode_categorical_column_count_witness:
  "wf_frame listings_fe \<and> encode_categorical (\<lambda>x. []) listings_fe None = Inr listings_final \<and>
   length (columns listings_fe) = 11 \<and>
   card (set [Str ''petrol'', Str ''Unknown'']) + card (set [Str ''Unknown'', Str ''Unknown''])
     + card (set [Str ''Unknown'', Str ''Unknown'']) = 4 \<and>
   length (columns listings_final) = (11 - 3) + 4"
proof -
  have c: "card (set [Str ''petrol'', Str ''Unknown'']) + card (set [Str ''Unknown'', Str ''Unknown''])
     + card (set [Str ''Unknown'', Str ''Unknown'']) = 4"
    by simp
  have l: "length (columns listings_fe) = 11"
    by (simp add: listings_fe_def)
  have m: "map_of (columns listings_fe) ''fuel'' = Some [Str ''petrol'', Str ''Unknown'']"
    "map_of (columns listings_fe) ''transmission'' = Some [Str ''Unknown'', Str ''Unknown'']"
    "map_of (columns listings_fe) ''brand'' = Some [Str ''Unknown'', Str ''Unknown'']"
    by (simp_all add: listings_fe_def)
  from encode_categorical_column_count [OF wf_listings_fe enc_listings]
  have "length (columns listings_final) = (11 - 3) + 4"
    unfolding m l by auto
  with wf_listings_fe enc_listings l c show ?thesis by blast
qed

text \<open>
  Claim C10. The encoder is fitted on the table it transforms. For an input without
  missing values in \<open>fuel\<close>, \<open>transmission\<close> and \<open>brand\<close>, the table returned has as
  many rows as the input, and in every row, among the indicator columns of each of the
  three source columns, exactly one is 1 and all the others are 0: no row is all zero.
\<close>

theorem encode_categorical_one_hot:
  assumes "wf_frame df" and "encode_categorical fmt df None = Inr out"
    and "\<forall>c \<in> set [''fuel'', ''transmission'', ''brand''].
           \<forall>s. map_of (columns df) c = Some s \<longrightarrow> NaN \<notin> set s"
  shows "length (index out) = length (index df) \<and>
         list_all (\<lambda>c. length (snd c) = length (index df)) (columns out) \<and>
         (\<exists>Bf Bt Bb f t b.
            columns out =
              filter (\<lambda>c. fst c \<notin> set [''fuel'', ''transmission'', ''brand'']) (columns df) @
              Bf @ Bt @ Bb \<and>
            map_of (columns df) ''fuel'' = Some f \<and>
            map_of (columns df) ''transmission'' = Some t \<and>
            map_of (columns df) ''brand'' = Some b \<and>
            map fst Bf = map (\<lambda>k. ''fuel_'' @ py_str fmt k) (sort_key cell_key (remdups f)) \<and>
            map fst Bt = map (\<lambda>k. ''transmission_'' @ py_str fmt k) (sort_key cell_key (remdups t)) \<and>
            map fst Bb = map (\<lambda>k. ''brand_'' @ py_str fmt k) (sort_key cell_key (remdups b)) \<and>
            (\<forall>B \<in> set [Bf, Bt, Bb]. \<forall>i < length (index df).
               \<exists>j < length B. snd (B ! j) ! i = Num 1 \<and>
                 (\<forall>j' < length B. j' \<noteq> j \<longrightarrow> snd (B ! j') ! i = Num 0)))"
proof -
  let ?cs = "[''fuel'', ''transmission'', ''brand'']"
  let ?n = "length (index df)"
  from assms(1,2) obtain f t b cf ct cb where
    f: "map_of (columns df) ''fuel'' = Some f" and
    t: "map_of (columns df) ''transmission'' = Some t" and
    b: "map_of (columns df) ''brand'' = Some b" and
    cf: "unique_sorted f = Inr cf" and ct: "unique_sorted t = Inr ct" and
    cb: "unique_sorted b = Inr cb" and
    out: "out = \<lparr>index = [0..<length (index df)],
            columns =
              filter (\<lambda>c. fst c \<notin> set ?cs) (columns df) @
              map (\<lambda>k. (''fuel'' @ ''_'' @ py_str fmt k, map (\<lambda>x. if x = k then Num 1 else Num 0) f)) cf @
              map (\<lambda>k. (''transmission'' @ ''_'' @ py_str fmt k, map (\<lambda>x. if x = k then Num 1 else Num 0) t)) ct @
              map (\<lambda>k. (''brand'' @ ''_'' @ py_str fmt k, map (\<lambda>x. if x = k then Num 1 else Num 0) b)) cb\<rparr>"
    by (rule encode_categorical_default_Inr)
  define block :: "string \<Rightarrow> series \<Rightarrow> cell list \<Rightarrow> (string \<times> series) list" where
    "block c s k = map (\<lambda>v. (c @ ''_'' @ py_str fmt v, map (\<lambda>x. if x = v then Num 1 else Num 0) s)) k"
    for c s k
  have lf: "length f = ?n" and lt: "length t = ?n" and lb: "length b = ?n"
    using assms(1) f t b by (auto dest: wf_frame_lookup)
  have cfe: "cf = sort_key cell_key (remdups f)" and cte: "ct = sort_key cell_key (remdups t)"
    and cbe: "cb = sort_key cell_key (remdups b)"
    using cf ct cb by (simp_all add: unique_sorted_def split: if_splits)
  have hot: "\<forall>i < ?n. \<exists>j < length (block c s k). snd (block c s k ! j) ! i = Num 1 \<and>
                 (\<forall>j' < length (block c s k). j' \<noteq> j \<longrightarrow> snd (block c s k ! j') ! i = Num 0)"
    if "unique_sorted s = Inr k" "length s = ?n" for c s k
  proof (intro allI impI)
    fix i assume "i < ?n"
    then have i: "i < length s" using that(2) by simp
    from one_hot_exactly_one [OF unique_sorted_Inr(1,2) [OF that(1)] i]
    show "\<exists>j < length (block c s k). snd (block c s k ! j) ! i = Num 1 \<and>
                 (\<forall>j' < length (block c s k). j' \<noteq> j \<longrightarrow> snd (block c s k ! j') ! i = Num 0)"
      by (simp add: block_def cong: conj_cong)
  qed
  have 1: "length (index out) = ?n" by (simp add: out)
  have 2: "list_all (\<lambda>c. length (snd c) = ?n) (columns out)"
    using assms(1) lf lt lb by (auto simp: out wf_frame_def list_all_iff)
  have 3: "columns out = filter (\<lambda>c. fst c \<notin> set ?cs) (columns df) @
             block ''fuel'' f cf @ block ''transmission'' t ct @ block ''brand'' b cb"
    by (simp add: out block_def)
  have 4: "map fst (block ''fuel'' f cf) = map (\<lambda>k. ''fuel_'' @ py_str fmt k) (sort_key cell_key (remdups f))"
    "map fst (block ''transmission'' t ct) = map (\<lambda>k. ''transmission_'' @ py_str fmt k) (sort_key cell_key (remdups t))"
    "map fst (block ''brand'' b cb) = map (\<lambda>k. ''brand_'' @ py_str fmt k) (sort_key cell_key (remdups b))"
    by (simp_all add: block_def cfe cte cbe comp_def)
  have 5: "\<forall>B \<in> set [block ''fuel'' f cf, block ''transmission'' t ct, block ''brand'' b cb].
             \<forall>i < ?n. \<exists>j < length B. snd (B ! j) ! i = Num 1 \<and>
                 (\<forall>j' < length B. j' \<noteq> j \<longrightarrow> snd (B ! j') ! i = Num 0)"
    using hot [OF cf lf] hot [OF ct lt] hot [OF cb lb] by simp
  show ?thesis
    using 1 2 3 f t b 4 5 by blast
qed

theorem encode_categorical_one_hot_witness:
  "wf_frame listings_fe \<and> encode_categorical (\<lambda>x. []) listings_fe None = Inr listings_final \<and>
   map_of (columns listings_fe) ''fuel'' = Some [Str ''petrol'', Str ''Unknown''] \<and>
   map_of (columns listings_fe) ''transmission'' = Some [Str ''Unknown'', Str ''Unknown''] \<and>
   map_of (columns listings_fe) ''brand'' = Some [Str ''Unknown'', Str ''Unknown''] \<and>
   NaN \<notin> set [Str ''petrol'', Str ''Unknown''] \<and> NaN \<notin> set [Str ''Unknown'', Str ''Unknown''] \<and>
   length (index listings_final) = length (index listings_fe) \<and>
   (\<exists>Bf Bt Bb.
      columns listings_final =
        filter (\<lambda>c. fst c \<notin> set [''fuel'', ''transmission'', ''brand'']) (columns listings_fe) @
        Bf @ Bt @ Bb \<and>
      map fst Bf = [''fuel_Unknown'', ''fuel_petrol''] \<and>
      map fst Bt = [''transmission_Unknown''] \<and>
      map fst Bb = [''brand_Unknown''] \<and>
      (\<forall>B \<in> set [Bf, Bt, Bb]. \<forall>i < length (index listings_fe).
         \<exists>j < length B. snd (B ! j) ! i = Num 1 \<and>
           (\<forall>j' < length B. j' \<noteq> j \<longrightarrow> snd (B ! j') ! i = Num 0)))"
proof -
  have m: "map_of (columns listings_fe) ''fuel'' = Some [Str ''petrol'', Str ''Unknown'']"
    "map_of (columns listings_fe) ''transmission'' = Some [Str ''Unknown'', Str ''Unknown'']"
    "map_of (columns listings_fe) ''brand'' = Some [Str ''Unknown'', Str ''Unknown'']"
    by (simp_all add: listings_fe_def)
  have h: "\<forall>c \<in> set [''fuel'', ''transmission'', ''brand''].
           \<forall>s. map_of (columns listings_fe) c = Some s \<longrightarrow> NaN \<notin> set s"
    by (simp add: m)
  from encode_categorical_one_hot [OF wf_listings_fe enc_listings h, THEN conjunct2, THEN conjunct2]
    encode_categorical_one_hot [OF wf_listings_fe enc_listings h, THEN conjunct1]
  obtain Bf Bt Bb f t b where
    c: "columns listings_final =
        filter (\<lambda>c. fst c \<notin> set [''fuel'', ''transmission'', ''brand'']) (columns listings_fe) @
        Bf @ Bt @ Bb" and
    f: "map_of (columns listings_fe) ''fuel'' = Some f" and
    t: "map_of (columns listings_fe) ''transmission'' = Some t" and
    b: "map_of (columns listings_fe) ''brand'' = Some b" and
    nf: "map fst Bf = map (\<lambda>k. ''fuel_'' @ py_str (\<lambda>x. []) k) (sort_key cell_key (remdups f))" and
    nt: "map fst Bt = map (\<lambda>k. ''transmission_'' @ py_str (\<lambda>x. []) k) (sort_key cell_key (remdups t))" and
    nb: "map fst Bb = map (\<lambda>k. ''brand_'' @ py_str (\<lambda>x. []) k) (sort_key cell_key (remdups b))" and
    hot: "\<forall>B \<in> set [Bf, Bt, Bb]. \<forall>i < length (index listings_fe).
         \<exists>j < length B. snd (B ! j) ! i = Num 1 \<and>
           (\<forall>j' < length B. j' \<noteq> j \<longrightarrow> snd (B ! j') ! i = Num 0)" and
    l: "length (index listings_final) = length (index listings_fe)"
    by (elim exE conjE) (rule that)
  from f t b m have e: "f = [Str ''petrol'', Str ''Unknown'']" "t = [Str ''Unknown'', Str ''Unknown'']"
    "b = [Str ''Unknown'', Str ''Unknown'']"
    by simp_all
  have n: "map fst Bf = [''fuel_Unknown'', ''fuel_petrol'']"
    "map fst Bt = [''transmission_Unknown'']" "map fst Bb = [''brand_Unknown'']"
    unfolding nf nt nb e by simp_all
  have x: "NaN \<notin> set [Str ''petrol'', Str ''Unknown'']" "NaN \<notin> set [Str ''Unknown'', Str ''Unknown'']"
    by simp_all
  show ?thesis
    using wf_listings_fe enc_listings m x l c n hot
    by (intro conjI exI [of _ Bf] exI [of _ Bt] exI [of _ Bb])
qed

section \<open>Properties of the run\<close>




text \<open>
  Claim C7. With the file source selected and no file at the fixed path, \<^verbatim>\<open>load_data\<close>
  raises the not-found error (Python's \<^verbatim>\<open>FileNotFoundError\<close>) after the existence test
  alone: the file is not read, and nothing else has run.
\<close>

theorem load_data_missing_file:
  assumes "\<not> path_exists w ''data/extracted_cars.csv''"
  shows "load_data False mongo_uri w =
           ([PathExists ''data/extracted_cars.csv''],
            Inl (FileNotFoundError ''data/extracted_cars.csv not found.''))"
  using assms by (simp add: load_data_def)

theorem load_data_missing_file_witness:
  "\<not> path_exists example_world ''data/extracted_cars.csv'' \<and>
   load_data False ''mongodb://localhost:27017/'' example_world =
     ([PathExists ''data/extracted_cars.csv''],
      Inl (FileNotFoundError ''data/extracted_cars.csv not found.''))"
proof -
  have h: "\<not> path_exists example_world ''data/extracted_cars.csv''"
    by (simp add: example_world_def)
  from load_data_missing_file [OF h] h show ?thesis by simp
qed



section \<open>Properties of the stages on objects\<close>

lemma feature_engineering_obj_cases:
  "feature_engineering_obj fmt cy a h =
     (case fe_age cy (h ! a) of
        Inl e \<Rightarrow> (Inl e, h @ [h ! a])
      | Inr v1 \<Rightarrow>
        (case fe_km_per_year v1 of
           Inl e \<Rightarrow> (Inl e, h @ [v1])
         | Inr v2 \<Rightarrow>
           (case fe_price_log v2 of
              Inl e \<Rightarrow> (Inl e, h @ [v2])
            | Inr v3 \<Rightarrow>
              (case fe_price_filter (fe_fill_categorical fmt v3) of
                 Inl e \<Rightarrow> (Inl e, h @ [fe_fill_categorical fmt v3])
               | Inr v5 \<Rightarrow>
                 (case fe_odometer_filter v5 of
                    Inl e \<Rightarrow> (Inl e, h @ [fe_fill_categorical fmt v3, v5])
                  | Inr v6 \<Rightarrow>
                      (Inr (length h + 2), h @ [fe_fill_categorical fmt v3, v5, v6]))))))"
  by (simp add: feature_engineering_obj_def obind_def copy_def in_place_def new_frame_def
      nth_append split: sum.splits)

lemma feature_engineering_cases:
  "feature_engineering fmt cy df =
     (case fe_age cy df of
        Inl e \<Rightarrow> Inl e
      | Inr v1 \<Rightarrow>
        (case fe_km_per_year v1 of
           Inl e \<Rightarrow> Inl e
         | Inr v2 \<Rightarrow>
           (case fe_price_log v2 of
              Inl e \<Rightarrow> Inl e
            | Inr v3 \<Rightarrow>
              (case fe_price_filter (fe_fill_categorical fmt v3) of
                 Inl e \<Rightarrow> Inl e
               | Inr v5 \<Rightarrow> fe_odometer_filter v5))))"
  by (simp add: feature_engineering_def fe_derive_def fe_drop_outliers_def rbind_def
      split: sum.splits)

lemma fe_obj_listings:
  "fst (feature_engineering_obj (\<lambda>x. []) 2024 0 [listings]) = Inr 3"
  "snd (feature_engineering_obj (\<lambda>x. []) 2024 0 [listings]) ! 3 = listings_fe"
  by (simp_all add: feature_engineering_obj_cases fe_age_def fe_km_per_year_def fe_price_log_def
      fe_fill_categorical_def fill_cat_def fe_price_filter_def fe_odometer_filter_def rbind_def
      getitem_def setitem_def loc_setitem_def getitem_mask_def select_def fillna_def
      astype_str_def listings_def listings_fe_def)

lemma enc_obj_listings:
  "encode_categorical_obj (\<lambda>x. []) 0 None [listings_fe] = (Inr 1, [listings_fe, listings_final])"
  by (simp add: encode_categorical_obj_def new_frame_def enc_listings)

text \<open>
  Claim C9. \<^verbatim>\<open>feature_engineering\<close> and \<^verbatim>\<open>encode_categorical\<close> return a new table and
  leave the table passed in as it was: after the call, also when it raises, the object
  passed in and every other table that existed hold what they held before, and the table
  returned is an object that did not exist before, holding the result.
\<close>

theorem stages_leave_input_unchanged:
  assumes "a < length h"
  shows "(case feature_engineering_obj fmt current_year a h of
            (r, h') \<Rightarrow>
              h' ! a = h ! a \<and> take (length h) h' = h \<and>
              (case r of
                 Inl e \<Rightarrow> feature_engineering fmt current_year (h ! a) = Inl e
               | Inr b \<Rightarrow>
                   length h \<le> b \<and> b < length h' \<and>
                   feature_engineering fmt current_year (h ! a) = Inr (h' ! b))) \<and>
         (case encode_categorical_obj fmt a cat_cols_arg h of
            (r, h') \<Rightarrow>
              h' ! a = h ! a \<and> take (length h) h' = h \<and>
              (case r of
                 Inl e \<Rightarrow> encode_categorical fmt (h ! a) cat_cols_arg = Inl e
               | Inr b \<Rightarrow>
                   length h \<le> b \<and> b < length h' \<and>
                   encode_categorical fmt (h ! a) cat_cols_arg = Inr (h' ! b)))"
proof
  show "case feature_engineering_obj fmt current_year a h of
            (r, h') \<Rightarrow>
              h' ! a = h ! a \<and> take (length h) h' = h \<and>
              (case r of
                 Inl e \<Rightarrow> feature_engineering fmt current_year (h ! a) = Inl e
               | Inr b \<Rightarrow>
                   length h \<le> b \<and> b < length h' \<and>
                   feature_engineering fmt current_year (h ! a) = Inr (h' ! b))"
    using assms
    by (simp add: feature_engineering_obj_cases feature_engineering_cases nth_append
        split: sum.splits)
  show "case encode_categorical_obj fmt a cat_cols_arg h of
            (r, h') \<Rightarrow>
              h' ! a = h ! a \<and> take (length h) h' = h \<and>
              (case r of
                 Inl e \<Rightarrow> encode_categorical fmt (h ! a) cat_cols_arg = Inl e
               | Inr b \<Rightarrow>
                   length h \<le> b \<and> b < length h' \<and>
                   encode_categorical fmt (h ! a) cat_cols_arg = Inr (h' ! b))"
    using assms
    by (simp add: encode_categorical_obj_def new_frame_def nth_append split: sum.splits)
qed

theorem stages_leave_input_unchanged_witness:
  "(0::nat) < length [listings] \<and>
   fst (feature_engineering_obj (\<lambda>x. []) 2024 0 [listings]) = Inr 3 \<and>
   snd (feature_engineering_obj (\<lambda>x. []) 2024 0 [listings]) ! 3 = listings_fe \<and>
   snd (feature_engineering_obj (\<lambda>x. []) 2024 0 [listings]) ! 0 = listings \<and>
   take 1 (snd (feature_engineering_obj (\<lambda>x. []) 2024 0 [listings])) = [listings] \<and>
   (0::nat) < length [listings_fe] \<and>
   encode_categorical_obj (\<lambda>x. []) 0 None [listings_fe] = (Inr 1, [listings_fe, listings_final])"
proof -
  have a: "(0::nat) < length [listings]" and b: "(0::nat) < length [listings_fe]"
    by simp_all
  from stages_leave_input_unchanged [OF a, of "\<lambda>x. []" 2024 None]
  have "snd (feature_engineering_obj (\<lambda>x. []) 2024 0 [listings]) ! 0 = listings"
    "take 1 (snd (feature_engineering_obj (\<lambda>x. []) 2024 0 [listings])) = [listings]"
    by (simp_all add: case_prod_unfold)
  with a b fe_obj_listings enc_obj_listings show ?thesis
    by simp
qed

end
